theory Spec2Isabelle
  imports Main "HOL-Library.Sublist"
begin

section \<open>Text primitives of the Python runtime\<close>

text \<open>
  The parser of \<^verbatim>\<open>scripts/parse_outputs.py\<close> works on Python \<^verbatim>\<open>str\<close> values.
  Here a text is a \<^typ>\<open>string\<close>: one \<^typ>\<open>char\<close> for each ASCII character, and the bytes
  of its UTF-8 encoding for any other character. The character classes are those of the
  ASCII range: a \<^typ>\<open>char\<close> with a code of 128 or more is an ordinary character (neither
  whitespace, nor a line boundary, nor a digit, nor a cased letter). Inside the ASCII
  range the classes below are exactly those of \<^verbatim>\<open>str.strip\<close>, \<^verbatim>\<open>str.splitlines\<close>,
  \<^verbatim>\<open>str.lower\<close>, \<^verbatim>\<open>str.upper\<close> and of \<^verbatim>\<open>\s\<close>, \<^verbatim>\<open>\d\<close>, \<^verbatim>\<open>.\<close> and
  \<^verbatim>\<open>re.IGNORECASE\<close> in \<^verbatim>\<open>re\<close>; what Python does with whitespace, line
  boundaries, digits and letters outside ASCII is not modelled.
\<close>

abbreviation LF :: char where "LF \<equiv> CHR 0x0A"
abbreviation CR :: char where "CR \<equiv> CHR 0x0D"

definition is_space :: "char \<Rightarrow> bool" where
  \<comment> \<open>\<^verbatim>\<open>str.isspace\<close> and \<^verbatim>\<open>\s\<close>: tab, LF, VT, FF, CR, FS, GS, RS, US and the space.\<close>
  "is_space c \<longleftrightarrow>
     c \<in> set [CHR 0x09, CHR 0x0A, CHR 0x0B, CHR 0x0C, CHR 0x0D,
               CHR 0x1C, CHR 0x1D, CHR 0x1E, CHR 0x1F, CHR 0x20]"

definition is_linebreak :: "char \<Rightarrow> bool" where
  \<comment> \<open>the single characters at which \<^verbatim>\<open>str.splitlines\<close> ends a line\<close>
  "is_linebreak c \<longleftrightarrow>
     c \<in> set [CHR 0x0A, CHR 0x0B, CHR 0x0C, CHR 0x0D, CHR 0x1C, CHR 0x1D, CHR 0x1E]"

definition is_digit :: "char \<Rightarrow> bool" where
  "is_digit c \<longleftrightarrow> c \<in> set ''0123456789''"

definition lower_char :: "char \<Rightarrow> char" where
  "lower_char c =
     (let n = of_char c :: nat in if 65 \<le> n \<and> n \<le> 90 then char_of (n + 32) else c)"

definition upper_char :: "char \<Rightarrow> char" where
  "upper_char c =
     (let n = of_char c :: nat in if 97 \<le> n \<and> n \<le> 122 then char_of (n - 32) else c)"

definition lower :: "string \<Rightarrow> string" where
  "lower s = map lower_char s"

definition upper :: "string \<Rightarrow> string" where
  "upper s = map upper_char s"

definition lstrip :: "string \<Rightarrow> string" where
  "lstrip s = dropWhile is_space s"

definition rstrip :: "string \<Rightarrow> string" where
  "rstrip s = rev (dropWhile is_space (rev s))"

definition strip :: "string \<Rightarrow> string" where
  \<comment> \<open>\<^verbatim>\<open>s.strip()\<close>\<close>
  "strip s = rstrip (lstrip s)"

definition strip_chars :: "char \<Rightarrow> string \<Rightarrow> string" where
  \<comment> \<open>\<^verbatim>\<open>s.strip(c)\<close> for a one-character argument\<close>
  "strip_chars c s = rev (dropWhile (\<lambda>x. x = c) (rev (dropWhile (\<lambda>x. x = c) s)))"

fun splitlines_from :: "string \<Rightarrow> string \<Rightarrow> string list" where
  \<comment> \<open>the first argument is the line read so far\<close>
  "splitlines_from cur [] = (if cur = [] then [] else [cur])"
| "splitlines_from cur (c # cs) =
     (if c = CR \<and> cs \<noteq> [] \<and> hd cs = LF then cur # splitlines_from [] (tl cs)
      else if is_linebreak c then cur # splitlines_from [] cs
      else splitlines_from (cur @ [c]) cs)"

definition splitlines :: "string \<Rightarrow> string list" where
  \<comment> \<open>\<^verbatim>\<open>s.splitlines()\<close>: CR LF is one boundary, a final boundary opens no line\<close>
  "splitlines s = splitlines_from [] s"

fun split_on :: "(char \<Rightarrow> bool) \<Rightarrow> string \<Rightarrow> string list" where
  \<comment> \<open>\<^verbatim>\<open>s.split(c)\<close> and \<^verbatim>\<open>re.split('[..]', s)\<close>: every separator cuts, empty pieces are kept\<close>
  "split_on P [] = [[]]"
| "split_on P (c # cs) =
     (if P c then [] # split_on P cs
      else (case split_on P cs of [] \<Rightarrow> [[c]] | x # xs \<Rightarrow> (c # x) # xs))"

fun join :: "string \<Rightarrow> string list \<Rightarrow> string" where
  \<comment> \<open>\<^verbatim>\<open>sep.join(xs)\<close>\<close>
  "join sep [] = []"
| "join sep [x] = x"
| "join sep (x # y # ys) = x @ sep @ join sep (y # ys)"

fun contains :: "string \<Rightarrow> string \<Rightarrow> bool" where
  \<comment> \<open>\<^verbatim>\<open>sub in s\<close>\<close>
  "contains sub [] = (sub = [])"
| "contains sub (c # cs) = (prefix sub (c # cs) \<or> contains sub cs)"

definition startswith :: "string \<Rightarrow> string \<Rightarrow> bool" where
  \<comment> \<open>\<^verbatim>\<open>s.startswith(p)\<close>\<close>
  "startswith s p = prefix p s"

section \<open>Constants and the normalizer\<close>

definition PLACEHOLDER_MARKER :: string where
  "PLACEHOLDER_MARKER = ''Not yet collected.''"

definition NOT_SPECIFIED :: string where
  "NOT_SPECIFIED = ''not specified on website''"

definition normalize :: "string option \<Rightarrow> string option" where
  "normalize value =
     (case value of
        None \<Rightarrow> None
      | Some s \<Rightarrow>
          (let v = strip s in
           if lower v \<in> set [NOT_SPECIFIED, ''n/a'', ''none'', ''unclear'', '''']
           then None else Some v))"

definition to_bool :: "string option \<Rightarrow> bool option" where
  "to_bool value =
     (case value of
        None \<Rightarrow> None
      | Some s \<Rightarrow>
          (let v = lower (strip s) in
           if v \<in> set [''yes'', ''true'', ''1''] then Some True
           else if v \<in> set [''no'', ''false'', ''0''] then Some False
           else None))"

section \<open>The regular expressions of the parser\<close>

text \<open>
  Each pattern of the source is written out as the backtracking search that \<^verbatim>\<open>re\<close>
  performs: a greedy repetition takes its longest run first and gives characters back
  one at a time, a lazy one grows one character at a time, and \<^verbatim>\<open>search\<close> tries the
  start positions from left to right.
\<close>

primrec try_down :: "(nat \<Rightarrow> 'a option) \<Rightarrow> nat \<Rightarrow> nat \<Rightarrow> 'a option" where
  \<comment> \<open>\<open>try_down f lo n\<close> tries \<open>f\<close> at \<open>lo + n - 1\<close>, ..., \<open>lo\<close> and keeps the first success\<close>
  "try_down f lo 0 = None"
| "try_down f lo (Suc n) = (case f (lo + n) of Some v \<Rightarrow> Some v | None \<Rightarrow> try_down f lo n)"

fun re_search :: "(string \<Rightarrow> 'a option) \<Rightarrow> string \<Rightarrow> 'a option" where
  \<comment> \<open>\<^verbatim>\<open>pattern.search\<close>: the match at the leftmost start position that has one\<close>
  "re_search m [] = m []"
| "re_search m (c # cs) = (case m (c # cs) of Some g \<Rightarrow> Some g | None \<Rightarrow> re_search m cs)"

definition ci_prefix :: "string \<Rightarrow> string \<Rightarrow> bool" where
  \<comment> \<open>a literal matched at the head of the text under \<^verbatim>\<open>re.IGNORECASE\<close>\<close>
  "ci_prefix p s \<longleftrightarrow> length p \<le> length s \<and> lower (take (length p) s) = lower p"

definition dot_plus :: "string \<Rightarrow> string option" where
  \<comment> \<open>\<^verbatim>\<open>(.+)\<close> at the head of the text: every character up to the next LF, at least one\<close>
  "dot_plus r = (case takeWhile (\<lambda>c. c \<noteq> LF) r of [] \<Rightarrow> None | c # g \<Rightarrow> Some (c # g))"

definition ws_group :: "nat \<Rightarrow> string \<Rightarrow> string option" where
  \<comment> \<open>\<^verbatim>\<open>\s*(.+)\<close> (\<open>lo = 0\<close>) and \<^verbatim>\<open>\s+(.+)\<close> (\<open>lo = 1\<close>) at the head of the text;
      the result is group 1\<close>
  "ws_group lo r =
     (let n = length (takeWhile is_space r)
      in try_down (\<lambda>k. dot_plus (drop k r)) lo (Suc n - lo))"

definition header_match :: "string \<Rightarrow> string option" where
  \<comment> \<open>\<^verbatim>\<open>re.match(r'^##\s+(.+)', line)\<close>, group 1\<close>
  "header_match line = (if prefix ''##'' line then ws_group 1 (drop 2 line) else None)"

fun until_marker :: "string \<Rightarrow> string" where
  \<comment> \<open>\<^verbatim>\<open>(.*?)(?=###|\Z)\<close> under \<^verbatim>\<open>re.DOTALL\<close>: the shortest text after which
      \<^verbatim>\<open>###\<close> or the end of the text stands\<close>
  "until_marker [] = []"
| "until_marker (c # cs) = (if prefix ''###'' (c # cs) then [] else c # until_marker cs)"

definition after_name :: "string \<Rightarrow> string option" where
  \<comment> \<open>\<^verbatim>\<open>\s*\n(.*?)(?=###|\Z)\<close> at the head of the text\<close>
  "after_name r =
     (let m = length (takeWhile is_space r)
      in try_down
           (\<lambda>j. if j < length r \<and> r ! j = LF then Some (until_marker (drop (Suc j) r)) else None)
           0 (Suc m))"

definition subsection_match :: "string \<Rightarrow> string \<Rightarrow> string option" where
  \<comment> \<open>\<^verbatim>\<open>###\s+NAME\s*\n(.*?)(?=###|\Z)\<close> at the head of the text, group 1\<close>
  "subsection_match subsection_name t =
     (if prefix ''###'' t then
        (let r = drop 3 t; n = length (takeWhile is_space r)
         in try_down
              (\<lambda>k. if ci_prefix subsection_name (drop k r)
                   then after_name (drop (k + length subsection_name) r) else None)
              1 n)
      else None)"

definition field_match :: "string \<Rightarrow> string \<Rightarrow> string option" where
  \<comment> \<open>\<^verbatim>\<open>\*\*FIELD:\*\*\s*(.+)\<close> at the head of the text, group 1\<close>
  "field_match field_name t =
     (let lit = ''**'' @ field_name @ '':**''
      in if ci_prefix lit t then ws_group 0 (drop (length lit) t) else None)"

definition numbered_match :: "string \<Rightarrow> string option" where
  \<comment> \<open>\<^verbatim>\<open>re.match(r'^\d+\.\s+(.+)', line)\<close>, group 1. A digit given back by \<^verbatim>\<open>\d+\<close>
      is no full stop, so only the longest run of digits can be followed by one.\<close>
  "numbered_match line =
     (let ds = takeWhile is_digit line
      in if ds = [] then None
         else (case drop (length ds) line of
                 [] \<Rightarrow> None
               | c # r \<Rightarrow> if c = CHR ''.'' then ws_group 1 r else None))"

definition separator_cell :: "string \<Rightarrow> bool" where
  \<comment> \<open>\<^verbatim>\<open>re.match(r'^[-:]+$', c)\<close>; \<^verbatim>\<open>$\<close> also stands before a final LF\<close>
  "separator_cell c =
     (let body = takeWhile (\<lambda>x. x = CHR ''-'' \<or> x = CHR '':'') c;
          rest = drop (length body) c
      in body \<noteq> [] \<and> (rest = [] \<or> rest = [LF]))"

definition digit_value :: "char \<Rightarrow> int" where
  "digit_value c = int (of_char c) - 48"

definition int_of_digits :: "string \<Rightarrow> int" where
  \<comment> \<open>\<^verbatim>\<open>int(s)\<close> for a string of decimal digits\<close>
  "int_of_digits ds = foldl (\<lambda>a c. 10 * a + digit_value c) 0 ds"

definition first_int :: "string \<Rightarrow> int option" where
  \<comment> \<open>\<^verbatim>\<open>m = re.search(r'\d+', s); int(m.group()) if m else None\<close>\<close>
  "first_int s =
     (let r = dropWhile (\<lambda>c. \<not> is_digit c) s
      in if r = [] then None else Some (int_of_digits (takeWhile is_digit r)))"

definition url_tail :: "nat \<Rightarrow> string \<Rightarrow> nat option" where
  \<comment> \<open>\<^verbatim>\<open>\S+\<close> from position \<open>k\<close>: the length of the whole match\<close>
  "url_tail k t =
     (let n = length (takeWhile (\<lambda>c. \<not> is_space c) (drop k t))
      in if n = 0 then None else Some (k + n))"

definition url_match :: "string \<Rightarrow> nat option" where
  \<comment> \<open>\<^verbatim>\<open>https?://\S+\<close> at the head of the text: the length of the match\<close>
  "url_match t =
     (case (if prefix ''https://'' t then url_tail 8 t else None) of
        Some n \<Rightarrow> Some n
      | None \<Rightarrow> if prefix ''http://'' t then url_tail 7 t else None)"

fun count_urls_from :: "nat \<Rightarrow> string \<Rightarrow> nat" where
  \<comment> \<open>\<^verbatim>\<open>len(re.findall(r'https?://\S+', t))\<close>: matches do not overlap; the first
      argument counts the characters of the last match still to be passed\<close>
  "count_urls_from skip [] = 0"
| "count_urls_from skip (c # cs) =
     (if 0 < skip then count_urls_from (skip - 1) cs
      else (case url_match (c # cs) of
              Some n \<Rightarrow> Suc (count_urls_from (n - 1) cs)
            | None \<Rightarrow> count_urls_from 0 cs))"

definition count_urls :: "string \<Rightarrow> nat" where
  "count_urls t = count_urls_from 0 t"

fun replace_from :: "string \<Rightarrow> string \<Rightarrow> nat \<Rightarrow> string \<Rightarrow> string" where
  "replace_from old new skip [] = []"
| "replace_from old new skip (c # cs) =
     (if 0 < skip then replace_from old new (skip - 1) cs
      else if prefix old (c # cs) then new @ replace_from old new (length old - 1) cs
      else c # replace_from old new 0 cs)"

definition replace :: "string \<Rightarrow> string \<Rightarrow> string \<Rightarrow> string" where
  \<comment> \<open>\<^verbatim>\<open>s.replace(old, new)\<close> for a non-empty \<open>old\<close>: occurrences from the left, not overlapping\<close>
  "replace old new s = replace_from old new 0 s"

section \<open>Section splitter, subsection locator, field extractor\<close>

fun split_loop ::
  "(string \<rightharpoonup> string) \<Rightarrow> string \<Rightarrow> string list \<Rightarrow> string list \<Rightarrow> (string \<rightharpoonup> string)" where
  \<comment> \<open>the loop of \<^verbatim>\<open>split_sections\<close> with its three variables, and the store after it\<close>
  "split_loop sections current_key current_lines [] =
     sections(current_key \<mapsto> join [LF] current_lines)"
| "split_loop sections current_key current_lines (line # rest) =
     (case header_match line of
        Some g \<Rightarrow>
          split_loop (sections(current_key \<mapsto> join [LF] current_lines))
            (upper (strip g)) [] rest
      | None \<Rightarrow> split_loop sections current_key (current_lines @ [line]) rest)"

definition split_sections :: "string \<Rightarrow> (string \<rightharpoonup> string)" where
  "split_sections text = split_loop Map.empty ''_preamble'' [] (splitlines text)"

definition get_subsection :: "string \<Rightarrow> string \<Rightarrow> string" where
  "get_subsection section_text subsection_name =
     (case re_search (subsection_match subsection_name) section_text of
        Some g \<Rightarrow> strip g
      | None \<Rightarrow> [])"

definition extract_field :: "string \<Rightarrow> string \<Rightarrow> string option" where
  "extract_field text field_name =
     (case re_search (field_match field_name) text of
        Some g \<Rightarrow> normalize (Some g)
      | None \<Rightarrow> None)"

section \<open>List and table extractors\<close>

fun list_items_loop :: "string list \<Rightarrow> string list \<Rightarrow> string list" where
  \<comment> \<open>the loop of \<^verbatim>\<open>extract_list_items\<close>; the first argument is \<^verbatim>\<open>items\<close>\<close>
  "list_items_loop items [] = items"
| "list_items_loop items (l # rest) =
     (let line = strip l in
      if startswith line ''- '' \<or> startswith line ''* '' then
        (let item = strip (drop 2 line) in
         if item \<noteq> [] \<and> lower item \<noteq> NOT_SPECIFIED
         then list_items_loop (items @ [item]) rest
         else list_items_loop items rest)
      else list_items_loop items rest)"

definition extract_list_items :: "string \<Rightarrow> string list" where
  "extract_list_items text = list_items_loop [] (splitlines text)"

fun numbered_steps_loop :: "string list \<Rightarrow> string list \<Rightarrow> string list" where
  \<comment> \<open>the loop of \<^verbatim>\<open>extract_numbered_steps\<close>; the first argument is \<^verbatim>\<open>steps\<close>\<close>
  "numbered_steps_loop steps [] = steps"
| "numbered_steps_loop steps (l # rest) =
     (case numbered_match (strip l) of
        Some g \<Rightarrow>
          (let step = strip g in
           if lower step \<noteq> NOT_SPECIFIED
           then numbered_steps_loop (steps @ [step]) rest
           else numbered_steps_loop steps rest)
      | None \<Rightarrow> numbered_steps_loop steps rest)"

definition extract_numbered_steps :: "string \<Rightarrow> string list" where
  "extract_numbered_steps text = numbered_steps_loop [] (splitlines text)"

record form =
  form_name :: "string option"
  form_number :: "string option"
  description :: "string option"
  language :: "string option"
  url :: "string option"
  file_type :: "string option"

definition table_lines :: "string \<Rightarrow> string list" where
  \<comment> \<open>\<^verbatim>\<open>[l.strip() for l in section_text.splitlines() if l.strip().startswith("|")]\<close>\<close>
  "table_lines section_text =
     map strip (filter (\<lambda>l. startswith (strip l) ''|'') (splitlines section_text))"

definition row_cells :: "string \<Rightarrow> string list" where
  \<comment> \<open>\<^verbatim>\<open>[c.strip() for c in line.strip("|").split("|")]\<close>\<close>
  "row_cells line = map strip (split_on (\<lambda>c. c = CHR ''|'') (strip_chars (CHR ''|'') line))"

fun data_rows_loop :: "string list list \<Rightarrow> string list \<Rightarrow> string list list" where
  \<comment> \<open>the first loop of \<^verbatim>\<open>extract_form_table\<close>; the first argument is \<^verbatim>\<open>data_rows\<close>\<close>
  "data_rows_loop data_rows [] = data_rows"
| "data_rows_loop data_rows (line # rest) =
     (let cells = row_cells line in
      if list_all separator_cell (filter (\<lambda>c. c \<noteq> []) cells)
      then data_rows_loop data_rows rest
      else if cells \<noteq> [] \<and> lower (hd cells) \<in> set [''form name'', ''form name '']
      then data_rows_loop data_rows rest
      else if 6 \<le> length cells then data_rows_loop (data_rows @ [cells]) rest
      else data_rows_loop data_rows rest)"

fun forms_loop :: "form list \<Rightarrow> string list list \<Rightarrow> form list" where
  \<comment> \<open>the second loop of \<^verbatim>\<open>extract_form_table\<close>; the first argument is \<^verbatim>\<open>forms\<close>\<close>
  "forms_loop forms [] = forms"
| "forms_loop forms (row # rest) =
     (if length row < 6 then forms_loop forms rest
      else if lower (row ! 0) \<in> set ['''', ''not specified on website'']
      then forms_loop forms rest
      else forms_loop
             (forms @
               [\<lparr>form_name = normalize (Some (row ! 0)),
                 form_number = normalize (Some (row ! 1)),
                 description = normalize (Some (row ! 2)),
                 language = normalize (Some (row ! 3)),
                 url = normalize (Some (row ! 4)),
                 file_type = normalize (Some (row ! 5))\<rparr>])
             rest)"

definition extract_form_table :: "string \<Rightarrow> form list" where
  "extract_form_table section_text =
     forms_loop [] (data_rows_loop [] (table_lines section_text))"

section \<open>The structured record\<close>

record application =
  online_available :: "bool option"
  online_url :: "string option"
  online_doc_submission :: "bool option"
  online_doc_submission_notes :: "string option"
  app_steps_count :: "int option"
  steps :: "string list"

record documents =
  specified_on_website :: bool
  document_list :: "string list"

record interview =
  required :: "bool option"
  type_options :: "string list option"
  scheduling_who_initiates :: "string option"
  scheduling_url :: "string option"
  hours_specified :: bool
  hours_description :: "string option"
  evening_weekend_hours :: "bool option"
  hours_notes :: "string option"
  reminders_sent :: "bool option"
  reminder_method :: "string option"
  reschedule_available :: "bool option"
  reschedule_method :: "string option"
  reschedule_url :: "string option"
  missed_interview_penalty :: "string option"
  good_cause_exceptions :: "bool option"
  good_cause_notes :: "string option"

record forms =
  total_count :: "int option"
  form_list :: "form list"

record language_access =
  website_languages :: "string list option"
  form_languages :: "string list option"
  translation_method :: "string option"
  la_notes :: "string option"

record complexity =
  steps_count :: "int option"
  forms_to_complete :: "int option"
  reading_level :: "string option"
  reading_level_notes :: "string option"

record assets =
  pages_referenced :: nat
  downloads_referenced :: nat
  pages_downloaded :: nat
  forms_downloaded :: nat

record parse_status =
  parsed :: bool
  parse_timestamp :: string
  ps_warnings :: "string list"
  ps_errors :: "string list"

record metadata =
  md_state :: string
  md_abbreviation :: string
  collected_date :: "string option"
  source_url :: "string option"
  md_application :: application
  md_documents :: documents
  md_interview :: interview
  md_forms :: forms
  md_language_access :: language_access
  md_complexity :: complexity
  md_assets :: assets
  md_parse_status :: parse_status

text \<open>One entry of \<^verbatim>\<open>states.json\<close>.\<close>

record state_entry =
  st_name :: string
  st_abbreviation :: string
  folder_name :: string

section \<open>The record assembler\<close>

definition truthy :: "string option \<Rightarrow> bool" where
  \<comment> \<open>the truth value Python gives an optional string: \<^verbatim>\<open>None\<close> and \<^verbatim>\<open>""\<close> are false\<close>
  "truthy v = (case v of None \<Rightarrow> False | Some s \<Rightarrow> s \<noteq> [])"

definition section_get :: "(string \<rightharpoonup> string) \<Rightarrow> string \<Rightarrow> string" where
  \<comment> \<open>\<^verbatim>\<open>sections.get(key, "")\<close>\<close>
  "section_get sections key = (case sections key of None \<Rightarrow> [] | Some v \<Rightarrow> v)"

definition missing_error :: "string \<Rightarrow> string \<Rightarrow> string list" where
  \<comment> \<open>\<^verbatim>\<open>if not section: errors.append("<NAME> section missing")\<close>: what is appended\<close>
  "missing_error key section = (if section = [] then [key @ '' section missing''] else [])"

definition parse_preamble :: "string \<Rightarrow> string option \<times> string option \<times> string list" where
  \<comment> \<open>collected date, source URL, warnings appended\<close>
  "parse_preamble preamble =
     (let collected = extract_field preamble ''Collected'';
          source = extract_field preamble ''Source URL''
      in (collected, source,
          (if \<not> truthy collected then [''Collected date not found in preamble''] else []) @
          (if \<not> truthy source then [''Source URL not found in preamble''] else [])))"

definition app_steps :: "string \<Rightarrow> string list" where
  \<comment> \<open>the steps of the \<^verbatim>\<open>Steps\<close> subsection, or else of the whole section\<close>
  "app_steps app_section =
     (let found = extract_numbered_steps (get_subsection app_section ''Steps'')
      in if found = [] then extract_numbered_steps app_section else found)"

definition interview_types_of :: "string option \<Rightarrow> string list" where
  "interview_types_of interview_type_raw =
     (if truthy interview_type_raw then
        map (replace ''in person'' ''in-person'')
          (filter (\<lambda>t. t \<in> set [''phone'', ''in-person'', ''in person'', ''both''])
             (map (\<lambda>t. lower (strip t))
                (split_on (\<lambda>c. c = CHR '','' \<or> c = CHR ''/'') (the interview_type_raw))))
      else [])"

definition parse_interview :: "string \<Rightarrow> interview" where
  "parse_interview interview_section =
     (let interview_types =
            interview_types_of (extract_field interview_section ''Interview Type Options'');
          sched_sub = get_subsection interview_section ''Scheduling'';
          timing_sub = get_subsection interview_section ''Timing and Hours'';
          when_conducted = extract_field timing_sub ''When Interviews Are Conducted'';
          reminder_sub = get_subsection interview_section ''Reminder Process'';
          reschedule_sub = get_subsection interview_section ''Rescheduling'';
          penalty_sub = get_subsection interview_section ''Missed Interview Penalties''
      in \<lparr>required = to_bool (extract_field interview_section ''Interview Required''),
          type_options = (if interview_types = [] then None else Some interview_types),
          scheduling_who_initiates = extract_field sched_sub ''How to Schedule'',
          scheduling_url = extract_field sched_sub ''Scheduling URL'',
          hours_specified = (when_conducted \<noteq> None),
          hours_description = when_conducted,
          evening_weekend_hours =
            to_bool (extract_field timing_sub ''Evening or Weekend Hours Available''),
          hours_notes = extract_field timing_sub ''Hours Notes'',
          reminders_sent = to_bool (extract_field reminder_sub ''Reminders Sent''),
          reminder_method = extract_field reminder_sub ''Reminder Method'',
          reschedule_available = to_bool (extract_field reschedule_sub ''Reschedule Available''),
          reschedule_method = extract_field reschedule_sub ''How to Reschedule'',
          reschedule_url = extract_field reschedule_sub ''Reschedule URL'',
          missed_interview_penalty = extract_field penalty_sub ''Penalty for Missing Interview'',
          good_cause_exceptions = to_bool (extract_field penalty_sub ''Good Cause Exceptions''),
          good_cause_notes = extract_field penalty_sub ''Good Cause Notes''\<rparr>)"

definition count_field :: "string \<Rightarrow> string \<Rightarrow> int option" where
  \<comment> \<open>the pattern \<^verbatim>\<open>raw = extract_field(..); n = None; if raw: m = re.search(r'\d+', raw); ..\<close>\<close>
  "count_field section field_name =
     (let raw = extract_field section field_name
      in if truthy raw then first_int (the raw) else None)"

definition parse_forms :: "string \<Rightarrow> forms \<times> string list" where
  \<comment> \<open>the forms group and the warnings appended\<close>
  "parse_forms forms_section =
     (let total_forms = count_field forms_section ''Total Forms Found'';
          table = extract_form_table forms_section
      in if total_forms = None \<and> table \<noteq> []
         then (\<lparr>total_count = Some (int (length table)), form_list = table\<rparr>,
               [''Total Forms Found field missing; inferred from table row count''])
         else (\<lparr>total_count = total_forms, form_list = table\<rparr>, []))"

definition split_langs :: "string option \<Rightarrow> string list option" where
  "split_langs raw =
     (if \<not> truthy raw then None
      else if lower (the raw) \<in> set [''english only''] then Some [''English'']
      else Some (filter (\<lambda>l. l \<noteq> [])
                   (map strip (split_on (\<lambda>c. c = CHR '','' \<or> c = CHR '';'') (the raw)))))"

definition parse_language :: "string \<Rightarrow> language_access" where
  "parse_language lang_section =
     \<lparr>website_languages = split_langs (extract_field lang_section ''Languages Supported on Website''),
      form_languages = split_langs (extract_field lang_section ''Languages Supported on Forms''),
      translation_method = extract_field lang_section ''Translation Method'',
      la_notes = extract_field lang_section ''Language Access Notes''\<rparr>"

definition final_steps_count :: "string \<Rightarrow> string list \<Rightarrow> int option" where
  \<comment> \<open>the declared number of steps, or else the number of steps found, when there are any\<close>
  "final_steps_count complexity_section found =
     (let declared = count_field complexity_section ''Estimated Number of Steps''
      in if declared = None \<and> found \<noteq> [] then Some (int (length found)) else declared)"

definition parse_urls_section :: "string \<Rightarrow> nat \<times> nat" where
  "parse_urls_section section_text =
     (count_urls (get_subsection section_text ''Pages Visited''),
      count_urls (get_subsection section_text ''Downloadable Assets''))"

definition build_metadata ::
  "state_entry \<Rightarrow> (string \<rightharpoonup> string) \<Rightarrow> nat \<times> nat \<Rightarrow> string
     \<Rightarrow> metadata \<times> string list \<times> string list" where
  \<comment> \<open>\<^verbatim>\<open>parse_state\<close> from \<^verbatim>\<open>sections = split_sections(content)\<close> to the dictionary
      \<^verbatim>\<open>metadata\<close>: the sections, the counts of \<^verbatim>\<open>count_assets(folder)\<close> and the value
      of \<^verbatim>\<open>datetime.now(timezone.utc).isoformat()\<close> come in; metadata, warnings and
      errors go out\<close>
  "build_metadata st sections downloaded timestamp =
     (let (collected, source, preamble_warnings) =
            parse_preamble (section_get sections ''_preamble'');
          app_section = section_get sections ''APPLICATION PROCESS'';
          found_steps = app_steps app_section;
          docs_section = section_get sections ''REQUIRED DOCUMENTS'';
          doc_items = extract_list_items docs_section;
          interview_section = section_get sections ''INTERVIEW REQUIREMENTS'';
          forms_section = section_get sections ''FORMS'';
          (forms_group, forms_warnings) = parse_forms forms_section;
          lang_section = section_get sections ''LANGUAGE ACCESS'';
          complexity_section = section_get sections ''COMPLEXITY ASSESSMENT'';
          count_of_steps = final_steps_count complexity_section found_steps;
          urls_section = section_get sections ''URLS REFERENCED'';
          (pages_ref, downloads_ref) =
            (if urls_section \<noteq> [] then parse_urls_section urls_section else (0, 0));
          all_warnings =
            preamble_warnings @
            (if found_steps = [] then [''No numbered steps found in APPLICATION PROCESS''] else []) @
            forms_warnings @
            (if complexity_section = [] then [''COMPLEXITY ASSESSMENT section missing''] else []);
          all_errors =
            missing_error ''APPLICATION PROCESS'' app_section @
            missing_error ''REQUIRED DOCUMENTS'' docs_section @
            missing_error ''INTERVIEW REQUIREMENTS'' interview_section @
            missing_error ''FORMS'' forms_section @
            missing_error ''LANGUAGE ACCESS'' lang_section
      in (\<lparr>md_state = st_name st,
           md_abbreviation = st_abbreviation st,
           collected_date = collected,
           source_url = source,
           md_application =
             \<lparr>online_available = to_bool (extract_field app_section ''Online Application Available''),
              online_url = extract_field app_section ''Online Application URL'',
              online_doc_submission =
                to_bool (extract_field app_section ''Online Document Submission Available''),
              online_doc_submission_notes =
                extract_field app_section ''Online Document Submission Notes'',
              app_steps_count = count_of_steps,
              steps = found_steps\<rparr>,
           md_documents =
             \<lparr>specified_on_website = (0 < length doc_items), document_list = doc_items\<rparr>,
           md_interview = parse_interview interview_section,
           md_forms = forms_group,
           md_language_access = parse_language lang_section,
           md_complexity =
             \<lparr>steps_count = count_of_steps,
              forms_to_complete =
                count_field complexity_section ''Estimated Total Forms to Complete'',
              reading_level = extract_field complexity_section ''Estimated Reading Level'',
              reading_level_notes = extract_field complexity_section ''Reading Level Notes''\<rparr>,
           md_assets =
             \<lparr>pages_referenced = pages_ref,
              downloads_referenced = downloads_ref,
              pages_downloaded = fst downloaded,
              forms_downloaded = snd downloaded\<rparr>,
           md_parse_status =
             \<lparr>parsed = (length all_errors = 0),
              parse_timestamp = timestamp,
              ps_warnings = all_warnings,
              ps_errors = all_errors\<rparr>\<rparr>,
          all_warnings, all_errors))"

section \<open>Files, clock and the batch driver\<close>

record log_entry =
  le_state :: string
  le_abbreviation :: string
  le_parse_timestamp :: string
  le_warnings :: "string list"
  le_errors :: "string list"

text \<open>
  The file \<^verbatim>\<open>logs/parse_log.json\<close>: absent, not decodable as JSON, or the list of entries
  that \<^verbatim>\<open>save_log\<close> wrote.
\<close>

datatype log_content = NoLog | BadLog | Log "log_entry list"

text \<open>
  What the script reads and writes outside its own variables: the reports
  \<^verbatim>\<open>data/<folder>/agent_output.md\<close> (each as the text that \<^verbatim>\<open>f.read()\<close> returns), the
  records \<^verbatim>\<open>data/<folder>/metadata.json\<close>
  (kept as the dictionary that \<^verbatim>\<open>json.dump\<close> serialises), the numbers of files under
  \<^verbatim>\<open>data/<folder>/pages\<close> and \<^verbatim>\<open>data/<folder>/forms\<close>, \<^verbatim>\<open>states.json\<close>, the log file, and
  the clock: \<open>clock w n\<close> is what the \<open>n\<close>-th reading of
  \<^verbatim>\<open>datetime.now(timezone.utc).isoformat()\<close> returns, \<open>ticks w\<close> the readings made so far.
\<close>

record world =
  md_files :: "string \<rightharpoonup> string"
  meta_files :: "string \<rightharpoonup> metadata"
  stored_assets :: "string \<Rightarrow> nat \<times> nat"
  states_file :: "state_entry list"
  parse_log_file :: log_content
  clock :: "nat \<Rightarrow> string"
  ticks :: nat

definition now :: "world \<Rightarrow> string \<times> world" where
  "now w = (clock w (ticks w), w\<lparr>ticks := Suc (ticks w)\<rparr>)"

definition count_assets :: "world \<Rightarrow> string \<Rightarrow> nat \<times> nat" where
  "count_assets w state_folder = stored_assets w state_folder"

definition load_states :: "world \<Rightarrow> state_entry list" where
  "load_states w = states_file w"

definition load_log :: "world \<Rightarrow> log_entry list" where
  "load_log w = (case parse_log_file w of Log entries \<Rightarrow> entries | _ \<Rightarrow> [])"

definition save_log :: "world \<Rightarrow> log_entry list \<Rightarrow> world" where
  "save_log w entries = w\<lparr>parse_log_file := Log entries\<rparr>"

definition not_found_note :: string where
  "not_found_note = ''agent_output.md not found''"

definition placeholder_note :: string where
  \<comment> \<open>the dash of the source is U+2014, here the three bytes of its UTF-8 encoding\<close>
  "placeholder_note =
     ''agent_output.md is a placeholder '' @ [CHR 0xE2, CHR 0x80, CHR 0x94] @ '' not yet collected''"

definition parse_state ::
  "world \<Rightarrow> state_entry \<Rightarrow> (metadata option \<times> string list \<times> string list) \<times> world" where
  \<comment> \<open>the result is the triple that the source names \<^verbatim>\<open>metadata, warnings, errors\<close> at
      its last \<^verbatim>\<open>return\<close>, and the files after the call; the parameter \<^verbatim>\<open>strict\<close> of the
      source is read nowhere in its body\<close>
  "parse_state w st =
     (let folder = folder_name st in
      case md_files w folder of
        None \<Rightarrow> ((None, [not_found_note], []), w)
      | Some content \<Rightarrow>
          if contains PLACEHOLDER_MARKER content
          then ((None, [], [placeholder_note]), w)
          else
            (let sections = split_sections content;
                 downloaded = count_assets w folder;
                 (timestamp, w1) = now w;
                 (metadata, warnings, errors) = build_metadata st sections downloaded timestamp
             in ((Some metadata, warnings, errors),
                 w1\<lparr>meta_files := (meta_files w1)(folder \<mapsto> metadata)\<rparr>)))"

record args =
  arg_state :: "string option"
  strict :: bool

record totals =
  log :: "log_entry list"
  total_errors :: nat
  total_warnings :: nat
  processed :: nat
  skipped :: nat

fun main_loop :: "totals \<Rightarrow> world \<Rightarrow> state_entry list \<Rightarrow> totals \<times> world" where
  \<comment> \<open>the loop \<^verbatim>\<open>for state in states\<close> of \<^verbatim>\<open>main\<close>, without its printing\<close>
  "main_loop t w [] = (t, w)"
| "main_loop t w (st # rest) =
     (case parse_state w st of
        ((meta, warnings, errors), w1) \<Rightarrow>
          if meta = None \<and> errors = [] then main_loop (t\<lparr>skipped := skipped t + 1\<rparr>) w1 rest
          else if meta = None then main_loop (t\<lparr>skipped := skipped t + 1\<rparr>) w1 rest
          else
            (let (timestamp, w2) = now w1
             in main_loop
                  (t\<lparr>processed := processed t + 1,
                     total_warnings := total_warnings t + length warnings,
                     total_errors := total_errors t + length errors,
                     log := log t @
                       [\<lparr>le_state = st_name st,
                         le_abbreviation = st_abbreviation st,
                         le_parse_timestamp = timestamp,
                         le_warnings = warnings,
                         le_errors = errors\<rparr>]\<rparr>)
                  w2 rest))"

definition selected_states :: "args \<Rightarrow> world \<Rightarrow> state_entry list" where
  \<comment> \<open>\<^verbatim>\<open>states\<close> after the filter of \<^verbatim>\<open>--state\<close>\<close>
  "selected_states a w =
     (if truthy (arg_state a)
      then filter (\<lambda>s. upper (st_abbreviation s) = upper (the (arg_state a))) (load_states w)
      else load_states w)"

definition main :: "args \<Rightarrow> world \<Rightarrow> (nat \<times> totals option) \<times> world" where
  \<comment> \<open>the exit status, the totals of the summary lines when the batch ran, and the files
      after the run\<close>
  "main a w =
     (let states = selected_states a w in
      if truthy (arg_state a) \<and> states = [] then ((1, None), w)
      else
        (let (t, w1) =
               main_loop
                 \<lparr>log = load_log w, total_errors = 0, total_warnings = 0,
                  processed = 0, skipped = 0\<rparr>
                 w states;
             w2 = save_log w1 (log t)
         in ((if strict a \<and> 0 < total_errors t then 1 else 0, Some t), w2)))"

definition without_timestamp :: "metadata \<Rightarrow> metadata" where
  \<comment> \<open>a record with its \<^verbatim>\<open>parse_status.parse_timestamp\<close> blanked, for comparing two runs\<close>
  "without_timestamp m = m\<lparr>md_parse_status := (md_parse_status m)\<lparr>parse_timestamp := []\<rparr>\<rparr>"

section \<open>Notions used to state the properties\<close>

definition sub_header_at :: "string \<Rightarrow> string \<Rightarrow> bool" where
  \<comment> \<open>the text begins with a sub-header for the label: \<^verbatim>\<open>###\<close>, whitespace, the label in
      any case, and then whitespace that holds a line feed\<close>
  "sub_header_at label t \<longleftrightarrow>
     (\<exists>ws nm tail. t = ''###'' @ ws @ nm @ tail \<and> ws \<noteq> [] \<and> list_all is_space ws \<and>
        length nm = length label \<and> lower nm = lower label \<and>
        LF \<in> set (takeWhile is_space tail))"

definition is_parsed :: "world \<Rightarrow> state_entry \<Rightarrow> bool" where
  \<comment> \<open>the report of the jurisdiction exists and does not hold the placeholder marker\<close>
  "is_parsed w st \<longleftrightarrow>
     (case md_files w (folder_name st) of
        None \<Rightarrow> False
      | Some content \<Rightarrow> \<not> contains PLACEHOLDER_MARKER content)"

definition expected_entry :: "world \<Rightarrow> nat \<Rightarrow> state_entry \<Rightarrow> log_entry" where
  \<comment> \<open>the log entry of the \<open>i\<close>-th parsed report of a batch started in \<open>w\<close>: each parsed
      report reads the clock twice, first for its record and then for its log entry\<close>
  "expected_entry w i st =
     (let result =
            build_metadata st (split_sections (the (md_files w (folder_name st))))
              (stored_assets w (folder_name st)) (clock w (ticks w + 2 * i))
      in \<lparr>le_state = st_name st,
          le_abbreviation = st_abbreviation st,
          le_parse_timestamp = clock w (ticks w + 2 * i + 1),
          le_warnings = fst (snd result),
          le_errors = snd (snd result)\<rparr>)"

fun blocks_from :: "string \<Rightarrow> string list \<Rightarrow> string list \<Rightarrow> (string \<times> string list) list" where
  \<comment> \<open>the blocks of a document in document order, each with its name and its lines: the
      block being read has the given name and lines, a header line closes it\<close>
  "blocks_from key cur [] = [(key, cur)]"
| "blocks_from key cur (line # rest) =
     (case header_match line of
        Some g \<Rightarrow> (key, cur) # blocks_from (upper (strip g)) [] rest
      | None \<Rightarrow> blocks_from key (cur @ [line]) rest)"

definition blocks :: "string \<Rightarrow> (string \<times> string list) list" where
  "blocks text = blocks_from ''_preamble'' [] (splitlines text)"

definition block_text :: "string \<times> string list \<Rightarrow> string \<times> string" where
  \<comment> \<open>a block with its lines joined by line feeds\<close>
  "block_text b = (fst b, join [LF] (snd b))"

definition required_blocks :: "string list" where
  \<comment> \<open>the names of the sections whose absence \<^verbatim>\<open>parse_state\<close> reports as an error\<close>
  "required_blocks =
     [''APPLICATION PROCESS'', ''REQUIRED DOCUMENTS'', ''INTERVIEW REQUIREMENTS'',
      ''FORMS'', ''LANGUAGE ACCESS'']"

definition removes_block :: "string \<Rightarrow> string \<Rightarrow> string \<Rightarrow> bool" where
  \<comment> \<open>the second document has exactly one block of the given name, and the third document
      is the second without the header line and the lines of that block\<close>
  "removes_block k content content' \<longleftrightarrow>
     (\<exists>pre h g body post.
        splitlines content = pre @ h # body @ post \<and>
        splitlines content' = pre @ post \<and>
        header_match h = Some g \<and> upper (strip g) = k \<and>
        (\<forall>l\<in>set body. header_match l = None) \<and>
        (post = [] \<or> header_match (hd post) \<noteq> None) \<and>
        (\<forall>l\<in>set (pre @ post). \<forall>g'. header_match l = Some g' \<longrightarrow> upper (strip g') \<noteq> k))"

section \<open>An example report\<close>

text \<open>
  A report with the five required blocks and a complexity block that declares no number
  of steps, the same report without its FORMS block and without its APPLICATION PROCESS
  block, and a world that holds one report for the jurisdiction \<^verbatim>\<open>CA\<close>.
\<close>

definition example_application :: "string list" where
  "example_application = [''## APPLICATION PROCESS'', ''1. Create an account'', ''2. Submit form'']"

definition example_documents :: "string list" where
  "example_documents = [''## REQUIRED DOCUMENTS'', ''- Photo ID'']"

definition example_interview :: "string list" where
  "example_interview = [''## INTERVIEW REQUIREMENTS'', ''**Interview Required:** Yes'']"

definition example_forms :: "string list" where
  "example_forms = [''## FORMS'', ''| SNAP-1 | 12 | Application | English | https://x.org/a | PDF |'']"

definition example_tail :: "string list" where
  "example_tail =
     [''## LANGUAGE ACCESS'', ''**Translation Method:** Human'',
      ''## COMPLEXITY ASSESSMENT'', ''**Estimated Reading Level:** 8th grade'']"

definition example_report :: string where
  "example_report =
     join [LF] (example_application @ example_documents @ example_interview @ example_forms @
                example_tail)"

definition example_without_forms :: string where
  "example_without_forms =
     join [LF] (example_application @ example_documents @ example_interview @ example_tail)"

definition example_without_application :: string where
  "example_without_application =
     join [LF] (example_documents @ example_interview @ example_forms @ example_tail)"

definition example_state :: state_entry where
  "example_state = \<lparr>st_name = ''California'', st_abbreviation = ''CA'', folder_name = ''ca''\<rparr>"

definition example_world :: "string \<Rightarrow> world" where
  "example_world content =
     \<lparr>md_files = [''ca'' \<mapsto> content], meta_files = Map.empty,
      stored_assets = (\<lambda>f. (0, 0)), states_file = [example_state],
      parse_log_file = NoLog, clock = (\<lambda>n. ''2024-01-01T00:00:00+00:00''), ticks = 0\<rparr>"

section \<open>Properties of the text primitives\<close>

lemma lstrip_idem: "lstrip (lstrip s) = lstrip s"
  by (simp add: lstrip_def dropWhile_idem)

lemma rstrip_idem: "rstrip (rstrip s) = rstrip s"
  by (simp add: rstrip_def dropWhile_idem)

lemma lstrip_rstrip_commute: "lstrip (rstrip s) = rstrip (lstrip s)"
proof (induction s)
  case Nil
  then show ?case by (simp add: lstrip_def rstrip_def)
next
  case (Cons c s)
  show ?case
  proof (cases "is_space c")
    case True
    note sp = this
    show ?thesis
    proof (cases "\<forall>x\<in>set s. is_space x")
      case True
      then have "rstrip (c # s) = []" using sp by (simp add: rstrip_def)
      moreover have "lstrip (c # s) = []" using True sp by (simp add: lstrip_def)
      moreover have "lstrip [] = []" "rstrip [] = []" by (simp_all add: lstrip_def rstrip_def)
      ultimately show ?thesis by simp
    next
      case False
      then obtain x where "x \<in> set (rev s)" "\<not> is_space x" by auto
      then have "dropWhile is_space (rev s @ [c]) = dropWhile is_space (rev s) @ [c]"
        by (rule dropWhile_append1)
      then have "rstrip (c # s) = c # rstrip s" by (simp add: rstrip_def)
      then have "lstrip (rstrip (c # s)) = lstrip (rstrip s)" using sp by (simp add: lstrip_def)
      moreover have "lstrip (c # s) = lstrip s" using sp by (simp add: lstrip_def)
      ultimately show ?thesis using Cons.IH by simp
    qed
  next
    case False
    then have l: "lstrip (c # s) = c # s" by (simp add: lstrip_def)
    have "rstrip (c # s) \<noteq> []"
    proof -
      have "dropWhile is_space (rev s @ [c]) \<noteq> []" using False
        by (metis dropWhile_eq_Nil_conv in_set_conv_decomp)
      then show ?thesis by (simp add: rstrip_def)
    qed
    moreover have "hd (rstrip (c # s)) = c"
    proof -
      have "dropWhile is_space (rev (c # s)) \<noteq> []" using False
        by (metis dropWhile_eq_Nil_conv list.set_intros(1) set_rev)
      then have "last (dropWhile is_space (rev (c # s))) = last (rev (c # s))"
        by (metis takeWhile_dropWhile_id last_appendR)
      then show ?thesis using \<open>dropWhile is_space (rev (c # s)) \<noteq> []\<close>
        by (simp add: rstrip_def hd_rev)
    qed
    ultimately have "lstrip (rstrip (c # s)) = rstrip (c # s)"
      using False by (cases "rstrip (c # s)") (auto simp: lstrip_def)
    then show ?thesis using l by simp
  qed
qed

lemma strip_idem: "strip (strip s) = strip s"
  by (metis lstrip_idem lstrip_rstrip_commute rstrip_idem strip_def)

lemma lstrip_Nil_iff: "lstrip s = [] \<longleftrightarrow> (\<forall>c\<in>set s. is_space c)"
  by (simp add: lstrip_def dropWhile_eq_Nil_conv)

lemma rstrip_Nil_iff: "rstrip s = [] \<longleftrightarrow> (\<forall>c\<in>set s. is_space c)"
  by (simp add: rstrip_def dropWhile_eq_Nil_conv)

lemma set_lstrip: "set (lstrip s) \<subseteq> set s"
  by (simp add: lstrip_def set_dropWhileD subsetI)

lemma strip_Nil_iff: "strip s = [] \<longleftrightarrow> (\<forall>c\<in>set s. is_space c)"
proof
  assume "strip s = []"
  then have "lstrip (rstrip s) = []" by (simp add: strip_def lstrip_rstrip_commute)
  then have "\<forall>c\<in>set (rstrip s). is_space c" by (simp add: lstrip_Nil_iff)
  show "\<forall>c\<in>set s. is_space c"
  proof (rule ccontr)
    assume "\<not> (\<forall>c\<in>set s. is_space c)"
    then have "lstrip s \<noteq> []" by (simp add: lstrip_Nil_iff)
    then have "\<not> is_space (hd (lstrip s))" unfolding lstrip_def by (metis hd_dropWhile)
    then have "\<not> (\<forall>c\<in>set (lstrip s). is_space c)" using \<open>lstrip s \<noteq> []\<close>
      by (metis hd_in_set)
    then have "rstrip (lstrip s) \<noteq> []" by (simp add: rstrip_Nil_iff)
    then show False using \<open>strip s = []\<close> by (simp add: strip_def)
  qed
next
  assume "\<forall>c\<in>set s. is_space c"
  then have "lstrip s = []" by (simp add: lstrip_Nil_iff)
  then show "strip s = []" by (simp add: strip_def rstrip_def)
qed

lemma rstrip_last: "rstrip s \<noteq> [] \<Longrightarrow> \<not> is_space (last (rstrip s))"
  unfolding rstrip_def by (metis hd_dropWhile last_rev rev_is_Nil_conv)

lemma strip_last: "strip s \<noteq> [] \<Longrightarrow> \<not> is_space (last (strip s))"
  by (simp add: strip_def rstrip_last)

lemma strip_hd: "strip s \<noteq> [] \<Longrightarrow> \<not> is_space (hd (strip s))"
proof -
  have "strip s = dropWhile is_space (rstrip s)"
    using lstrip_rstrip_commute [of s] by (simp add: strip_def lstrip_def)
  then show "strip s \<noteq> [] \<Longrightarrow> \<not> is_space (hd (strip s))" by (metis hd_dropWhile)
qed

lemma try_down_first: "f (lo + n) = Some v \<Longrightarrow> try_down f lo (Suc n) = Some v"
  by simp

lemma dot_plus_Some: "r \<noteq> [] \<Longrightarrow> hd r \<noteq> LF \<Longrightarrow> dot_plus r = Some (takeWhile (\<lambda>c. c \<noteq> LF) r)"
  by (cases r) (auto simp: dot_plus_def)

lemma is_space_LF: "is_space LF"
  by (simp add: is_space_def)

text \<open>When the text after the whitespace run is not empty, the greedy run is final.\<close>
lemma ws_group_greedy:
  assumes "dropWhile is_space r \<noteq> []" and "lo \<le> length (takeWhile is_space r)"
  shows "ws_group lo r = Some (takeWhile (\<lambda>c. c \<noteq> LF) (dropWhile is_space r))"
proof -
  let ?n = "length (takeWhile is_space r)"
  have d: "drop ?n r = dropWhile is_space r" by (simp add: dropWhile_eq_drop)
  have "\<not> is_space (hd (dropWhile is_space r))" using assms(1) by (metis hd_dropWhile)
  then have "hd (dropWhile is_space r) \<noteq> LF" using is_space_LF by metis
  then have "dot_plus (drop ?n r) = Some (takeWhile (\<lambda>c. c \<noteq> LF) (dropWhile is_space r))"
    using assms(1) d by (simp add: dot_plus_Some)
  moreover have "Suc ?n - lo = Suc (?n - lo)" "lo + (?n - lo) = ?n" using assms(2) by auto
  ultimately show ?thesis by (simp add: ws_group_def Let_def)
qed

section \<open>Properties of the pattern matcher\<close>

lemma try_down_Some:
  "try_down f lo n = Some v \<Longrightarrow> \<exists>k. lo \<le> k \<and> k < lo + n \<and> f k = Some v"
proof (induction n)
  case 0
  then show ?case by simp
next
  case (Suc n)
  show ?case
  proof (cases "f (lo + n)")
    case None
    then have "try_down f lo n = Some v" using Suc.prems by simp
    then obtain k where "lo \<le> k" "k < lo + n" "f k = Some v" using Suc.IH by blast
    then show ?thesis by (intro exI [of _ k]) simp
  next
    case (Some a)
    then have "a = v" using Suc.prems by simp
    then show ?thesis using Some by (intro exI [of _ "lo + n"]) simp
  qed
qed

lemma try_down_None: "try_down f lo n = None \<longleftrightarrow> (\<forall>k. lo \<le> k \<and> k < lo + n \<longrightarrow> f k = None)"
proof (induction n)
  case 0
  then show ?case by auto
next
  case (Suc n)
  show ?case
  proof (cases "f (lo + n)")
    case None
    have "(\<forall>k. lo \<le> k \<and> k < lo + Suc n \<longrightarrow> f k = None) \<longleftrightarrow>
          (\<forall>k. lo \<le> k \<and> k < lo + n \<longrightarrow> f k = None)"
      using None by (metis add_Suc_right less_Suc_eq)
    then show ?thesis using None Suc.IH by simp
  next
    case (Some a)
    then have "\<not> (\<forall>k. lo \<le> k \<and> k < lo + Suc n \<longrightarrow> f k = None)"
      by (metis add_Suc_right le_add1 lessI option.distinct(1))
    then show ?thesis using Some by simp
  qed
qed

lemma not_space_hash: "\<not> is_space (CHR ''#'')"
  by (simp add: is_space_def)

lemma until_marker_spaces:
  "list_all is_space ws \<Longrightarrow> until_marker (ws @ x) = ws @ until_marker x"
proof (induction ws)
  case Nil
  then show ?case by simp
next
  case (Cons c ws)
  then have "c \<noteq> CHR ''#''" using not_space_hash by auto
  then show ?case using Cons by simp
qed

lemma lstrip_spaces: "list_all is_space ws \<Longrightarrow> lstrip (ws @ x) = lstrip x"
  unfolding lstrip_def by (induction ws) simp_all

lemma strip_spaces: "list_all is_space ws \<Longrightarrow> strip (ws @ x) = strip x"
  by (simp add: strip_def lstrip_spaces)

lemma until_marker_prefix: "prefix (until_marker t) t"
  by (induction t rule: until_marker.induct) auto

lemma until_marker_stops:
  "until_marker t = t \<or> prefix ''###'' (drop (length (until_marker t)) t)"
  by (induction t rule: until_marker.induct) auto

lemma prefix_until_marker: "prefix p (until_marker t) \<Longrightarrow> prefix p t"
  using until_marker_prefix [of t] by (rule prefix_order.trans [rotated])

lemma until_marker_no_marker: "\<not> contains ''###'' (until_marker t)"
proof (induction t rule: until_marker.induct)
  case 1
  then show ?case by simp
next
  case (2 c cs)
  show ?case
  proof (cases "prefix ''###'' (c # cs)")
    case True
    then have "until_marker (c # cs) = []" by (simp only: until_marker.simps if_True)
    then show ?thesis by simp
  next
    case False
    then have u: "until_marker (c # cs) = c # until_marker cs"
      by (simp only: until_marker.simps if_False)
    have "\<not> prefix ''###'' (until_marker (c # cs))"
      using False prefix_until_marker by blast
    moreover have "\<not> contains ''###'' (until_marker cs)" using 2 False by blast
    ultimately show ?thesis unfolding u by (simp only: contains.simps) blast
  qed
qed

lemma take_in_run:
  assumes "k \<le> length (takeWhile P r)"
  shows "list_all P (take k r)"
proof -
  have "take k r = take k (takeWhile P r @ dropWhile P r)" by simp
  also have "\<dots> = take k (takeWhile P r)" using assms by (simp del: takeWhile_dropWhile_id)
  finally have "set (take k r) \<subseteq> set (takeWhile P r)" by (simp add: set_take_subset)
  then show ?thesis by (auto simp: list_all_iff dest: set_takeWhileD)
qed

lemma after_name_result:
  assumes "after_name r = Some g"
  shows "strip g = strip (until_marker r) \<and> LF \<in> set (takeWhile is_space r)"
proof -
  let ?m = "length (takeWhile is_space r)"
  from assms have "try_down
      (\<lambda>j. if j < length r \<and> r ! j = LF then Some (until_marker (drop (Suc j) r)) else None)
      0 (Suc ?m) = Some g"
    by (simp add: after_name_def Let_def)
  from try_down_Some [OF this] obtain j where "j < 0 + Suc ?m" and
    "(if j < length r \<and> r ! j = LF then Some (until_marker (drop (Suc j) r)) else None) = Some g"
    by blast
  then have j: "j < Suc ?m" "j < length r" "r ! j = LF"
      and g: "g = until_marker (drop (Suc j) r)"
    by (simp_all split: if_splits)
  have "j \<noteq> ?m"
  proof
    assume "j = ?m"
    then have "\<not> is_space (r ! j)" using j(2) nth_length_takeWhile [of is_space r] by simp
    then show False using j(3) is_space_LF by simp
  qed
  then have jm: "Suc j \<le> ?m" using j(1) by simp
  then have sp: "list_all is_space (take (Suc j) r)" by (rule take_in_run)
  have "until_marker (take (Suc j) r @ drop (Suc j) r) =
          take (Suc j) r @ until_marker (drop (Suc j) r)"
    by (rule until_marker_spaces [OF sp])
  then have "until_marker r = take (Suc j) r @ until_marker (drop (Suc j) r)"
    by simp
  then have "strip (until_marker r) = strip g" using g strip_spaces [OF sp] by simp
  moreover have "LF \<in> set (takeWhile is_space r)"
  proof -
    have "takeWhile is_space r ! j = r ! j" using jm by (simp add: takeWhile_nth)
    moreover have "j < length (takeWhile is_space r)" using jm by simp
    ultimately show ?thesis using j(3) nth_mem [of j "takeWhile is_space r"] by simp
  qed
  ultimately show ?thesis by simp
qed

lemma after_name_found:
  assumes "LF \<in> set (takeWhile is_space r)"
  shows "after_name r \<noteq> None"
proof
  let ?m = "length (takeWhile is_space r)"
  let ?f = "\<lambda>j. if j < length r \<and> r ! j = LF then Some (until_marker (drop (Suc j) r)) else None"
  from assms obtain j where j: "j < ?m" "takeWhile is_space r ! j = LF"
    unfolding in_set_conv_nth by blast
  then have "r ! j = LF" by (simp add: takeWhile_nth)
  moreover have "j < length r" using j(1) length_takeWhile_le [of is_space r] by simp
  ultimately have fj: "?f j \<noteq> None" by simp
  assume "after_name r = None"
  then have "try_down ?f 0 (Suc ?m) = None" by (simp add: after_name_def Let_def)
  then have "\<forall>k. 0 \<le> k \<and> k < 0 + Suc ?m \<longrightarrow> ?f k = None" by (simp only: try_down_None)
  then have "?f j = None" using j(1) by simp
  then show False using fj by simp
qed

lemma re_search_head: "m t = Some g \<Longrightarrow> re_search m t = Some g"
  by (cases t) simp_all

lemma re_search_skip:
  "(\<forall>i<length pre. m (drop i (pre @ t)) = None) \<Longrightarrow> re_search m (pre @ t) = re_search m t"
proof (induction pre)
  case Nil
  then show ?case by simp
next
  case (Cons c pre)
  have "m (drop 0 ((c # pre) @ t)) = None" using Cons.prems by blast
  then have h: "m (c # pre @ t) = None" by simp
  have "\<forall>i<length pre. m (drop i (pre @ t)) = None"
  proof (intro allI impI)
    fix i assume "i < length pre"
    then have "m (drop (Suc i) ((c # pre) @ t)) = None" using Cons.prems by auto
    then show "m (drop i (pre @ t)) = None" by simp
  qed
  then show ?case using Cons.IH h by simp
qed

lemma re_search_none:
  "(\<forall>i\<le>length t. m (drop i t) = None) \<Longrightarrow> re_search m t = None"
proof -
  assume a: "\<forall>i\<le>length t. m (drop i t) = None"
  then have "\<forall>i<length t. m (drop i (t @ [])) = None" by simp
  then have "re_search m (t @ []) = re_search m []" by (rule re_search_skip)
  moreover have "m (drop (length t) t) = None" using a by blast
  ultimately show ?thesis by simp
qed

lemma subsection_match_sound:
  assumes "subsection_match label t = Some g"
  shows "sub_header_at label t"
proof -
  have p: "prefix ''###'' t" using assms by (auto simp: subsection_match_def split: if_splits)
  define r where "r = drop 3 t"
  have t: "t = ''###'' @ r" using p unfolding r_def by (auto simp: prefix_def)
  let ?n = "length (takeWhile is_space r)"
  let ?f = "\<lambda>k. if ci_prefix label (drop k r)
                 then after_name (drop (k + length label) r) else None"
  have "try_down ?f 1 ?n = Some g"
    using assms p unfolding subsection_match_def Let_def r_def by simp
  from try_down_Some [OF this] obtain k where k: "1 \<le> k" "k < 1 + ?n" and fk: "?f k = Some g"
    by blast
  then have ci: "ci_prefix label (drop k r)"
    and an: "after_name (drop (k + length label) r) = Some g"
    by (simp_all split: if_splits)
  have kn: "k \<le> ?n" using k(2) by simp
  then have sp: "list_all is_space (take k r)" by (rule take_in_run)
  have "k \<le> length r" using kn length_takeWhile_le [of is_space r] by simp
  then have ne: "take k r \<noteq> []" using k(1) by auto
  let ?nm = "take (length label) (drop k r)"
  let ?tail = "drop (k + length label) r"
  have len: "length ?nm = length label" using ci by (simp add: ci_prefix_def)
  have low: "lower ?nm = lower label" using ci by (simp add: ci_prefix_def)
  have "drop (length label) (drop k r) = ?tail" by (simp add: add.commute)
  then have "drop k r = ?nm @ ?tail" using append_take_drop_id [of "length label" "drop k r"]
    by simp
  then have "r = take k r @ ?nm @ ?tail" by (metis append_take_drop_id)
  then have "t = ''###'' @ take k r @ ?nm @ ?tail" using t by simp
  moreover have "LF \<in> set (takeWhile is_space ?tail)" using after_name_result [OF an] by simp
  ultimately show ?thesis unfolding sub_header_at_def using ne sp len low by blast
qed

lemma subsection_match_at_header:
  assumes "t = ''###'' @ ws @ nm @ tail" and "ws \<noteq> []" and "list_all is_space ws"
    and "nm \<noteq> []" and "\<not> is_space (hd nm)"
    and "length nm = length label" and "lower nm = lower label"
    and "LF \<in> set (takeWhile is_space tail)"
  shows "\<exists>g. subsection_match label t = Some g \<and> strip g = strip (until_marker tail)"
proof -
  let ?r = "ws @ nm @ tail"
  have r: "drop 3 t = ?r" using assms(1) by simp
  have run: "takeWhile is_space ?r = ws"
    using assms(3,4,5) by (cases nm) (auto simp: list_all_iff takeWhile_append2)
  obtain n where n: "length ws = Suc n" using assms(2) by (cases ws) auto
  obtain g where g: "after_name tail = Some g" using after_name_found [OF assms(8)] by auto
  have ci: "ci_prefix label (nm @ tail)" using assms(6,7) by (simp add: ci_prefix_def)
  let ?f = "\<lambda>k. if ci_prefix label (drop k ?r)
                 then after_name (drop (k + length label) ?r) else None"
  have "?f (1 + n) = Some g" using n ci g assms(6) by simp
  then have "try_down ?f 1 (Suc n) = Some g" by (rule try_down_first)
  then have "subsection_match label t = Some g"
    using assms(1) n unfolding subsection_match_def r Let_def run by simp
  then show ?thesis using after_name_result [OF g] by simp
qed

section \<open>The normalizer\<close>

text \<open>
  Claim C10. For every input, \<^verbatim>\<open>normalize\<close> returns either \<^verbatim>\<open>None\<close> or a non-empty
  string that equals its own trim, and it is idempotent:
  \<^verbatim>\<open>normalize(normalize(x)) = normalize(x)\<close> for every \<^verbatim>\<open>x\<close>, \<^verbatim>\<open>None\<close> included.
\<close>

theorem normalize_trimmed_idempotent:
  "(normalize x = None \<or> (\<exists>v. normalize x = Some v \<and> v \<noteq> [] \<and> strip v = v))
   \<and> normalize (normalize x) = normalize x"
proof (cases x)
  case None
  then show ?thesis by (simp add: normalize_def)
next
  case (Some s)
  show ?thesis
  proof (cases "lower (strip s) \<in> set [NOT_SPECIFIED, ''n/a'', ''none'', ''unclear'', '''']")
    case True
    then have "normalize x = None" using Some by (simp add: normalize_def Let_def)
    then show ?thesis by (simp add: normalize_def)
  next
    case False
    then have n: "normalize x = Some (strip s)" using Some by (simp add: normalize_def Let_def)
    have ne: "strip s \<noteq> []" using False by (auto simp: lower_def)
    have "normalize (Some (strip s)) = Some (strip s)"
      using False by (simp add: normalize_def Let_def strip_idem)
    with n ne show ?thesis by (simp add: strip_idem)
  qed
qed

section \<open>The three outcomes of \<^verbatim>\<open>parse_state\<close>\<close>

lemma parse_state_not_found:
  "md_files w (folder_name st) = None \<Longrightarrow> parse_state w st = ((None, [not_found_note], []), w)"
  by (simp add: parse_state_def)

lemma parse_state_pending:
  "md_files w (folder_name st) = Some content \<Longrightarrow> contains PLACEHOLDER_MARKER content \<Longrightarrow>
   parse_state w st = ((None, [], [placeholder_note]), w)"
  by (simp add: parse_state_def)

lemma parse_state_parsed:
  assumes "md_files w (folder_name st) = Some content"
    and "\<not> contains PLACEHOLDER_MARKER content"
    and "build_metadata st (split_sections content) (stored_assets w (folder_name st))
           (clock w (ticks w)) = (m, ws, es)"
  shows "parse_state w st =
           ((Some m, ws, es),
            w\<lparr>ticks := Suc (ticks w), meta_files := (meta_files w)(folder_name st \<mapsto> m)\<rparr>)"
  using assms by (simp add: parse_state_def now_def count_assets_def)

lemma build_metadata_diagnostics:
  "build_metadata st secs d ts = (m, ws, es) \<Longrightarrow>
   ps_warnings (md_parse_status m) = ws \<and> ps_errors (md_parse_status m) = es \<and>
   parsed (md_parse_status m) = (es = []) \<and> parse_timestamp (md_parse_status m) = ts"
  by (auto simp: build_metadata_def Let_def case_prod_beta)

lemma build_metadata_timestamp:
  "build_metadata st secs d ts = (m, ws, es) \<Longrightarrow>
   build_metadata st secs d ts' =
     (m\<lparr>md_parse_status := (md_parse_status m)\<lparr>parse_timestamp := ts'\<rparr>\<rparr>, ws, es)"
  by (auto simp: build_metadata_def Let_def case_prod_beta)

section \<open>Pending documents\<close>

text \<open>
  Claim C1, as the code has it. For every report whose text contains the marker
  \<^verbatim>\<open>Not yet collected.\<close>, \<^verbatim>\<open>parse_state\<close> returns no record and an empty list of warnings,
  writes no file, and returns in the third component of its result (the one its caller
  binds to \<^verbatim>\<open>errors\<close>) exactly one informational note; the loop of \<^verbatim>\<open>main\<close> counts the
  report as skipped, adds nothing to the totals of warnings and errors and appends no
  log entry.
\<close>

theorem pending_document_is_skipped:
  assumes "md_files w (folder_name st) = Some content"
    and "contains PLACEHOLDER_MARKER content"
  shows "parse_state w st = ((None, [], [placeholder_note]), w) \<and>
         main_loop t w (st # rest) = main_loop (t\<lparr>skipped := skipped t + 1\<rparr>) w rest"
  using assms by (simp add: parse_state_pending)

theorem pending_document_is_skipped_witness:
  "parse_state
     \<lparr>md_files = [''ca'' \<mapsto> ''# CA'' @ [LF] @ ''Not yet collected.''], meta_files = Map.empty,
      stored_assets = (\<lambda>f. (0, 0)), states_file = [], parse_log_file = NoLog,
      clock = (\<lambda>n. ''t''), ticks = 0\<rparr>
     \<lparr>st_name = ''California'', st_abbreviation = ''CA'', folder_name = ''ca''\<rparr>
   = ((None, [], [placeholder_note]),
      \<lparr>md_files = [''ca'' \<mapsto> ''# CA'' @ [LF] @ ''Not yet collected.''], meta_files = Map.empty,
       stored_assets = (\<lambda>f. (0, 0)), states_file = [], parse_log_file = NoLog,
       clock = (\<lambda>n. ''t''), ticks = 0\<rparr>)"
  using pending_document_is_skipped
    [of "\<lparr>md_files = [''ca'' \<mapsto> ''# CA'' @ [LF] @ ''Not yet collected.''],
          meta_files = Map.empty,
          stored_assets = (\<lambda>f. (0, 0)), states_file = [], parse_log_file = NoLog,
          clock = (\<lambda>n. ''t''), ticks = 0\<rparr>"
        "\<lparr>st_name = ''California'', st_abbreviation = ''CA'', folder_name = ''ca''\<rparr>"
        "''# CA'' @ [LF] @ ''Not yet collected.''"]
  by (simp add: PLACEHOLDER_MARKER_def)

text \<open>
  The claim as written says that the errors sequence reported for such a report is
  empty. It is not: the note stands in the errors position of the result.
\<close>

theorem pending_document_errors_counterexample:
  "contains PLACEHOLDER_MARKER ''Not yet collected.'' \<and>
   snd (snd (fst (parse_state
     \<lparr>md_files = [''ca'' \<mapsto> ''Not yet collected.''], meta_files = Map.empty,
      stored_assets = (\<lambda>f. (0, 0)), states_file = [], parse_log_file = NoLog,
      clock = (\<lambda>n. ''t''), ticks = 0\<rparr>
     \<lparr>st_name = ''California'', st_abbreviation = ''CA'', folder_name = ''ca''\<rparr>))) \<noteq> []"
  by (simp add: PLACEHOLDER_MARKER_def parse_state_def)

section \<open>Running the parser twice\<close>

lemma parse_state_keeps_inputs:
  "md_files (snd (parse_state w st)) = md_files w \<and>
   stored_assets (snd (parse_state w st)) = stored_assets w \<and>
   clock (snd (parse_state w st)) = clock w"
  by (simp add: parse_state_def now_def Let_def case_prod_beta split: option.splits)

text \<open>
  Claim C3, as the code has it. When the report and the numbers of stored assets of a
  jurisdiction are the same in two runs of \<^verbatim>\<open>parse_state\<close>, the two runs return the same
  warnings and errors, and records that are equal in every field except
  \<^verbatim>\<open>parse_status.parse_timestamp\<close>, which holds the reading of the clock of each run; the
  records are equal in that field too when the two readings of the clock are the same.
\<close>

theorem parse_state_same_up_to_timestamp:
  assumes "md_files w' (folder_name st) = md_files w (folder_name st)"
    and "stored_assets w' (folder_name st) = stored_assets w (folder_name st)"
  shows "map_option without_timestamp (fst (fst (parse_state w' st))) =
           map_option without_timestamp (fst (fst (parse_state w st))) \<and>
         snd (fst (parse_state w' st)) = snd (fst (parse_state w st)) \<and>
         (clock w' (ticks w') = clock w (ticks w) \<longrightarrow>
            fst (parse_state w' st) = fst (parse_state w st))"
proof (cases "md_files w (folder_name st)")
  case None
  then show ?thesis using assms by (simp add: parse_state_not_found)
next
  case (Some content)
  show ?thesis
  proof (cases "contains PLACEHOLDER_MARKER content")
    case True
    then show ?thesis using Some assms by (simp add: parse_state_pending)
  next
    case False
    obtain m ws es where b:
      "build_metadata st (split_sections content) (stored_assets w (folder_name st))
         (clock w (ticks w)) = (m, ws, es)"
      by (metis prod_cases3)
    have b': "build_metadata st (split_sections content) (stored_assets w' (folder_name st))
         (clock w' (ticks w')) =
           (m\<lparr>md_parse_status := (md_parse_status m)\<lparr>parse_timestamp := clock w' (ticks w')\<rparr>\<rparr>,
            ws, es)"
      using build_metadata_timestamp [OF b] assms(2) by simp
    have ts: "parse_timestamp (md_parse_status m) = clock w (ticks w)"
      using build_metadata_diagnostics [OF b] by simp
    have p: "fst (parse_state w st) = (Some m, ws, es)"
      using parse_state_parsed [OF Some False b] by simp
    have p': "fst (parse_state w' st) =
        (Some (m\<lparr>md_parse_status := (md_parse_status m)\<lparr>parse_timestamp := clock w' (ticks w')\<rparr>\<rparr>),
         ws, es)"
      using parse_state_parsed [OF _ False b'] Some assms(1) by simp
    have "clock w' (ticks w') = clock w (ticks w) \<longrightarrow>
            m\<lparr>md_parse_status := (md_parse_status m)\<lparr>parse_timestamp := clock w' (ticks w')\<rparr>\<rparr> = m"
      using ts by auto
    then show ?thesis using p p' by (simp add: without_timestamp_def)
  qed
qed

text \<open>
  The second of two runs in a row reads the unchanged report, at the next reading of the
  clock.
\<close>

theorem parse_state_same_up_to_timestamp_witness:
  "map_option without_timestamp
     (fst (fst (parse_state
        (snd (parse_state
           \<lparr>md_files = [''ca'' \<mapsto> ''''], meta_files = Map.empty,
            stored_assets = (\<lambda>f. (0, 0)), states_file = [], parse_log_file = NoLog,
            clock = (\<lambda>n. if n = 0 then ''t0'' else ''t1''), ticks = 0\<rparr>
           \<lparr>st_name = ''California'', st_abbreviation = ''CA'', folder_name = ''ca''\<rparr>))
        \<lparr>st_name = ''California'', st_abbreviation = ''CA'', folder_name = ''ca''\<rparr>))) =
   map_option without_timestamp
     (fst (fst (parse_state
        \<lparr>md_files = [''ca'' \<mapsto> ''''], meta_files = Map.empty,
         stored_assets = (\<lambda>f. (0, 0)), states_file = [], parse_log_file = NoLog,
         clock = (\<lambda>n. if n = 0 then ''t0'' else ''t1''), ticks = 0\<rparr>
        \<lparr>st_name = ''California'', st_abbreviation = ''CA'', folder_name = ''ca''\<rparr>)))"
  using parse_state_same_up_to_timestamp
    [of "snd (parse_state
           \<lparr>md_files = [''ca'' \<mapsto> ''''], meta_files = Map.empty,
            stored_assets = (\<lambda>f. (0, 0)), states_file = [], parse_log_file = NoLog,
            clock = (\<lambda>n. if n = 0 then ''t0'' else ''t1''), ticks = 0\<rparr>
           \<lparr>st_name = ''California'', st_abbreviation = ''CA'', folder_name = ''ca''\<rparr>)"
        "\<lparr>st_name = ''California'', st_abbreviation = ''CA'', folder_name = ''ca''\<rparr>"
        "\<lparr>md_files = [''ca'' \<mapsto> ''''], meta_files = Map.empty,
         stored_assets = (\<lambda>f. (0, 0)), states_file = [], parse_log_file = NoLog,
         clock = (\<lambda>n. if n = 0 then ''t0'' else ''t1''), ticks = 0\<rparr>"]
  by (simp add: parse_state_keeps_inputs)

text \<open>
  The claim as written says that two runs on an unchanged report give identical
  records. They do not when the clock has moved between the runs: the record written by
  the second run differs from the first in \<^verbatim>\<open>parse_timestamp\<close>.
\<close>

theorem parse_state_twice_counterexample:
  "md_files (snd (parse_state
      \<lparr>md_files = [''ca'' \<mapsto> ''''], meta_files = Map.empty,
       stored_assets = (\<lambda>f. (0, 0)), states_file = [], parse_log_file = NoLog,
       clock = (\<lambda>n. if n = 0 then ''t0'' else ''t1''), ticks = 0\<rparr>
      \<lparr>st_name = ''California'', st_abbreviation = ''CA'', folder_name = ''ca''\<rparr>)) =
   [''ca'' \<mapsto> ''''] \<and>
   fst (parse_state
     (snd (parse_state
        \<lparr>md_files = [''ca'' \<mapsto> ''''], meta_files = Map.empty,
         stored_assets = (\<lambda>f. (0, 0)), states_file = [], parse_log_file = NoLog,
         clock = (\<lambda>n. if n = 0 then ''t0'' else ''t1''), ticks = 0\<rparr>
        \<lparr>st_name = ''California'', st_abbreviation = ''CA'', folder_name = ''ca''\<rparr>))
     \<lparr>st_name = ''California'', st_abbreviation = ''CA'', folder_name = ''ca''\<rparr>) \<noteq>
   fst (parse_state
     \<lparr>md_files = [''ca'' \<mapsto> ''''], meta_files = Map.empty,
      stored_assets = (\<lambda>f. (0, 0)), states_file = [], parse_log_file = NoLog,
      clock = (\<lambda>n. if n = 0 then ''t0'' else ''t1''), ticks = 0\<rparr>
     \<lparr>st_name = ''California'', st_abbreviation = ''CA'', folder_name = ''ca''\<rparr>)"
proof -
  let ?w = "\<lparr>md_files = [''ca'' \<mapsto> ''''], meta_files = Map.empty,
       stored_assets = (\<lambda>f. (0, 0)), states_file = [], parse_log_file = NoLog,
       clock = (\<lambda>n. if n = 0 then ''t0'' else ''t1''), ticks = (0::nat)\<rparr>"
  let ?st = "\<lparr>st_name = ''California'', st_abbreviation = ''CA'', folder_name = ''ca''\<rparr>"
  have f: "md_files ?w (folder_name ?st) = Some ''''" by simp
  have np: "\<not> contains PLACEHOLDER_MARKER ''''" by (simp add: PLACEHOLDER_MARKER_def)
  obtain m ws es where b:
    "build_metadata ?st (split_sections '''') (stored_assets ?w (folder_name ?st))
       (clock ?w (ticks ?w)) = (m, ws, es)"
    by (metis prod_cases3)
  note p = parse_state_parsed [OF f np b]
  have t0: "parse_timestamp (md_parse_status m) = ''t0''"
    using build_metadata_diagnostics [OF b] by simp
  let ?w1 = "snd (parse_state ?w ?st)"
  have f1: "md_files ?w1 (folder_name ?st) = Some ''''"
    using parse_state_keeps_inputs [of ?w ?st] by simp
  obtain m1 ws1 es1 where b1:
    "build_metadata ?st (split_sections '''') (stored_assets ?w1 (folder_name ?st))
       (clock ?w1 (ticks ?w1)) = (m1, ws1, es1)"
    by (metis prod_cases3)
  note p1 = parse_state_parsed [OF f1 np b1]
  have "clock ?w1 (ticks ?w1) = ''t1''" using p by simp
  then have t1: "parse_timestamp (md_parse_status m1) = ''t1''"
    using build_metadata_diagnostics [OF b1] by simp
  have "m1 \<noteq> m" using t0 t1 by auto
  then have "fst (parse_state ?w1 ?st) \<noteq> fst (parse_state ?w ?st)" using p p1 by simp
  moreover have "md_files ?w1 = [''ca'' \<mapsto> '''']"
    using parse_state_keeps_inputs [of ?w ?st] by simp
  ultimately show ?thesis by simp
qed

section \<open>The number of forms\<close>

lemma first_int_None_iff: "first_int s = None \<longleftrightarrow> (\<forall>c\<in>set s. \<not> is_digit c)"
  by (auto simp: first_int_def Let_def dropWhile_eq_Nil_conv)

lemma count_field_None_iff:
  "count_field section field_name = None \<longleftrightarrow>
     extract_field section field_name = None \<or>
     (\<exists>v. extract_field section field_name = Some v \<and> (v = [] \<or> (\<forall>c\<in>set v. \<not> is_digit c)))"
  by (cases "extract_field section field_name")
     (auto simp: count_field_def truthy_def Let_def first_int_None_iff)

lemma md_forms_build_metadata:
  "md_forms (fst (build_metadata st secs d ts)) = fst (parse_forms (section_get secs ''FORMS''))"
  by (simp add: build_metadata_def Let_def case_prod_beta)

lemma forms_warning_build_metadata:
  "set (snd (parse_forms (section_get secs ''FORMS''))) \<subseteq> set (fst (snd (build_metadata st secs d ts)))"
  by (auto simp: build_metadata_def Let_def case_prod_beta)

text \<open>
  Claim C9. When the \<^verbatim>\<open>Total Forms Found\<close> field of the FORMS block gives no integer
  (the field is absent, or its value has no digit) and the form table extracted from the
  block is not empty, the record has \<^verbatim>\<open>forms.total_count\<close> equal to the number of table
  rows, and the warnings (those returned and those of \<^verbatim>\<open>parse_status\<close>) hold the entry
  that the count was inferred.
\<close>

theorem forms_total_count_inferred:
  assumes "md_files w (folder_name st) = Some content"
    and "\<not> contains PLACEHOLDER_MARKER content"
    and "count_field (section_get (split_sections content) ''FORMS'') ''Total Forms Found'' = None"
    and "extract_form_table (section_get (split_sections content) ''FORMS'') \<noteq> []"
  shows "\<exists>m ws es w'.
           parse_state w st = ((Some m, ws, es), w') \<and>
           total_count (md_forms m) =
             Some (int (length (extract_form_table (section_get (split_sections content) ''FORMS'')))) \<and>
           form_list (md_forms m) =
             extract_form_table (section_get (split_sections content) ''FORMS'') \<and>
           ''Total Forms Found field missing; inferred from table row count'' \<in> set ws \<and>
           ps_warnings (md_parse_status m) = ws"
proof -
  obtain m ws es where b:
    "build_metadata st (split_sections content) (stored_assets w (folder_name st))
       (clock w (ticks w)) = (m, ws, es)"
    by (metis prod_cases3)
  note p = parse_state_parsed [OF assms(1,2) b]
  let ?sec = "section_get (split_sections content) ''FORMS''"
  have pf: "parse_forms ?sec =
      (\<lparr>total_count = Some (int (length (extract_form_table ?sec))),
        form_list = extract_form_table ?sec\<rparr>,
       [''Total Forms Found field missing; inferred from table row count''])"
    using assms(3,4) by (simp add: parse_forms_def Let_def)
  have "md_forms m = fst (parse_forms ?sec)"
    using md_forms_build_metadata [of st "split_sections content"
        "stored_assets w (folder_name st)" "clock w (ticks w)"] b by simp
  moreover have "set (snd (parse_forms ?sec)) \<subseteq> set ws"
    using forms_warning_build_metadata [of "split_sections content" st
        "stored_assets w (folder_name st)" "clock w (ticks w)"] b by simp
  moreover have "ps_warnings (md_parse_status m) = ws"
    using build_metadata_diagnostics [OF b] by simp
  ultimately show ?thesis using p pf by simp
qed

text \<open>A FORMS block with three table rows and no \<^verbatim>\<open>Total Forms Found\<close> field.\<close>

theorem forms_total_count_inferred_witness:
  "\<exists>m ws es w'.
     parse_state
       \<lparr>md_files = [''ca'' \<mapsto> ''## FORMS'' @ [LF] @ ''|A|1|2|3|4|5|'' @ [LF] @
                                ''|B|1|2|3|4|5|'' @ [LF] @ ''|C|1|2|3|4|5|''],
        meta_files = Map.empty, stored_assets = (\<lambda>f. (0, 0)), states_file = [],
        parse_log_file = NoLog, clock = (\<lambda>n. ''t''), ticks = 0\<rparr>
       \<lparr>st_name = ''California'', st_abbreviation = ''CA'', folder_name = ''ca''\<rparr>
       = ((Some m, ws, es), w') \<and>
     total_count (md_forms m) = Some 3 \<and>
     ''Total Forms Found field missing; inferred from table row count'' \<in> set ws"
proof -
  let ?content = "''## FORMS'' @ [LF] @ ''|A|1|2|3|4|5|'' @ [LF] @
                    ''|B|1|2|3|4|5|'' @ [LF] @ ''|C|1|2|3|4|5|''"
  let ?w = "\<lparr>md_files = [''ca'' \<mapsto> ?content],
        meta_files = Map.empty, stored_assets = (\<lambda>f. (0, 0)), states_file = [],
        parse_log_file = NoLog, clock = (\<lambda>n. ''t''), ticks = (0::nat)\<rparr>"
  let ?st = "\<lparr>st_name = ''California'', st_abbreviation = ''CA'', folder_name = ''ca''\<rparr>"
  have f: "md_files ?w (folder_name ?st) = Some ?content" by simp
  have np: "\<not> contains PLACEHOLDER_MARKER ?content" by code_simp
  have nc: "count_field (section_get (split_sections ?content) ''FORMS'') ''Total Forms Found'' = None"
    by code_simp
  have len: "length (extract_form_table (section_get (split_sections ?content) ''FORMS'')) = 3"
    by code_simp
  then have ne: "extract_form_table (section_get (split_sections ?content) ''FORMS'') \<noteq> []"
    by auto
  from forms_total_count_inferred [OF f np nc ne] obtain m ws es w' where
    p: "parse_state ?w ?st = ((Some m, ws, es), w')" and
    c: "total_count (md_forms m) =
          Some (int (length (extract_form_table (section_get (split_sections ?content) ''FORMS''))))" and
    i: "''Total Forms Found field missing; inferred from table row count'' \<in> set ws"
    by blast
  from c len have "total_count (md_forms m) = Some 3" by simp
  with p i show ?thesis by blast
qed

section \<open>Bullet and numbered lists\<close>

lemma numbered_group_not_blank:
  assumes "numbered_match (strip l) = Some g"
  shows "strip g \<noteq> []"
proof -
  let ?line = "strip l"
  let ?ds = "takeWhile is_digit ?line"
  from assms obtain r where r: "drop (length ?ds) ?line = CHR ''.'' # r" and g: "ws_group 1 r = Some g"
    by (auto simp: numbered_match_def Let_def split: if_splits list.splits)
  let ?n = "length (takeWhile is_space r)"
  have n: "1 \<le> ?n"
  proof (rule ccontr)
    assume "\<not> 1 \<le> ?n" then have "Suc ?n - 1 = 0" by arith
    then show False using g by (simp add: ws_group_def Let_def)
  qed
  then have rne: "r \<noteq> []" by auto
  have line: "?line = take (length ?ds) ?line @ CHR ''.'' # r" using r by (metis append_take_drop_id)
  then have "?line \<noteq> []" by auto
  then have "\<not> is_space (last ?line)" by (rule strip_last)
  moreover have "last ?line = last r" using line rne by (metis last_appendR last_ConsR list.distinct(1))
  ultimately have "\<not> is_space (last r)" by simp
  then have dne: "dropWhile is_space r \<noteq> []" using rne
    by (metis dropWhile_eq_Nil_conv last_in_set)
  from ws_group_greedy [OF dne n] g have geq: "g = takeWhile (\<lambda>c. c \<noteq> LF) (dropWhile is_space r)" by simp
  have "\<not> is_space (hd (dropWhile is_space r))" using dne by (metis hd_dropWhile)
  moreover from this have "hd (dropWhile is_space r) \<noteq> LF" using is_space_LF by metis
  ultimately have "g \<noteq> [] \<and> \<not> is_space (hd g)" using geq dne
    by (cases "dropWhile is_space r") auto
  then show ?thesis by (metis strip_Nil_iff hd_in_set)
qed

lemma list_items_loop_eq:
  "list_items_loop items ls =
     items @ filter (\<lambda>item. item \<noteq> [] \<and> lower item \<noteq> NOT_SPECIFIED)
       (map (\<lambda>l. strip (drop 2 (strip l)))
          (filter (\<lambda>l. startswith (strip l) ''- '' \<or> startswith (strip l) ''* '') ls))"
  by (induction ls arbitrary: items) (auto simp: Let_def)

lemma numbered_steps_loop_eq:
  "numbered_steps_loop acc ls =
     acc @ filter (\<lambda>step. lower step \<noteq> NOT_SPECIFIED)
       (map (\<lambda>l. strip (the (numbered_match (strip l))))
          (filter (\<lambda>l. numbered_match (strip l) \<noteq> None) ls))"
  by (induction ls arbitrary: acc) (auto simp: Let_def split: option.splits)

text \<open>
  Claim C4, as the code has it. Both extractors return the matched items in document
  order: the bullet extractor returns, for the lines that start with \<^verbatim>\<open>- \<close> or \<^verbatim>\<open>* \<close>
  once trimmed, the trimmed texts after the marker, and leaves out exactly those that
  are empty or equal \<^verbatim>\<open>not specified on website\<close> without regard to case; the numbered
  extractor returns, for the trimmed lines that match \<^verbatim>\<open>N. text\<close>, the trimmed texts,
  and leaves out exactly those that equal \<^verbatim>\<open>not specified on website\<close> without regard to
  case (none of them is empty). An item that is another sentinel of the normalizer
  (\<^verbatim>\<open>n/a\<close>, \<^verbatim>\<open>none\<close>, \<^verbatim>\<open>unclear\<close>) is returned as it is.
\<close>

theorem list_extractors_document_order:
  "extract_list_items text =
     filter (\<lambda>item. item \<noteq> [] \<and> lower item \<noteq> NOT_SPECIFIED)
       (map (\<lambda>l. strip (drop 2 (strip l)))
          (filter (\<lambda>l. startswith (strip l) ''- '' \<or> startswith (strip l) ''* '')
             (splitlines text))) \<and>
   extract_numbered_steps text =
     filter (\<lambda>step. lower step \<noteq> NOT_SPECIFIED)
       (map (\<lambda>l. strip (the (numbered_match (strip l))))
          (filter (\<lambda>l. numbered_match (strip l) \<noteq> None) (splitlines text))) \<and>
   [] \<notin> set (extract_numbered_steps text)"
proof -
  have "[] \<notin> set (extract_numbered_steps text)"
  proof
    assume "[] \<in> set (extract_numbered_steps text)"
    then obtain l g where "numbered_match (strip l) = Some g" and "strip g = []"
      by (auto simp: extract_numbered_steps_def numbered_steps_loop_eq)
    then show False using numbered_group_not_blank by blast
  qed
  then show ?thesis
    by (simp add: extract_list_items_def extract_numbered_steps_def
        list_items_loop_eq numbered_steps_loop_eq)
qed

text \<open>
  The claim as written says that every sentinel of the normalizer is dropped. The items
  \<^verbatim>\<open>n/a\<close> and \<^verbatim>\<open>none\<close>, which \<^verbatim>\<open>normalize\<close> turns into \<^verbatim>\<open>None\<close>, are returned by both
  extractors.
\<close>

theorem list_extractors_sentinel_counterexample:
  "extract_list_items (''- ID card'' @ [LF] @ ''- n/a'') = [''ID card'', ''n/a''] \<and>
   extract_numbered_steps (''1. Apply'' @ [LF] @ ''2. None'') = [''Apply'', ''None''] \<and>
   normalize (Some ''n/a'') = None \<and> normalize (Some ''None'') = None"
  by code_simp

section \<open>The form table\<close>

lemma data_rows_loop_eq:
  "data_rows_loop data_rows ls =
     data_rows @
     filter (\<lambda>cells. \<not> list_all separator_cell (filter (\<lambda>c. c \<noteq> []) cells) \<and>
                     \<not> (cells \<noteq> [] \<and> lower (hd cells) \<in> set [''form name'', ''form name '']) \<and>
                     6 \<le> length cells)
       (map row_cells ls)"
  by (induction ls arbitrary: data_rows) (auto simp: Let_def)

lemma forms_loop_eq:
  "forms_loop forms rows =
     forms @
     map (\<lambda>row. \<lparr>form_name = normalize (Some (row ! 0)),
                 form_number = normalize (Some (row ! 1)),
                 description = normalize (Some (row ! 2)),
                 language = normalize (Some (row ! 3)),
                 url = normalize (Some (row ! 4)),
                 file_type = normalize (Some (row ! 5))\<rparr>)
       (filter (\<lambda>row. \<not> length row < 6 \<and>
                      lower (row ! 0) \<notin> set ['''', ''not specified on website''])
          rows)"
  by (induction rows arbitrary: forms) auto

text \<open>
  Claim C5, as the code has it. The table extractor reads the lines that start with
  \<^verbatim>\<open>|\<close> once trimmed, splits each into trimmed cells, and keeps, in document order,
  exactly the rows of at least 6 cells that are no separator row, no header row, and whose
  first cell is neither empty nor equal to \<^verbatim>\<open>not specified on website\<close> without regard
  to case; each kept row gives one record of the first 6 cells, each normalized. A
  5-cell row is discarded, a 6-cell row with first cell \<^verbatim>\<open>Not Specified on Website\<close> is
  discarded, and a 6-cell row with another first cell is kept with exactly those 6
  fields.
\<close>

theorem form_table_rows_kept:
  "extract_form_table text =
     map (\<lambda>row. \<lparr>form_name = normalize (Some (row ! 0)),
                 form_number = normalize (Some (row ! 1)),
                 description = normalize (Some (row ! 2)),
                 language = normalize (Some (row ! 3)),
                 url = normalize (Some (row ! 4)),
                 file_type = normalize (Some (row ! 5))\<rparr>)
       (filter (\<lambda>cells. 6 \<le> length cells \<and>
                        \<not> list_all separator_cell (filter (\<lambda>c. c \<noteq> []) cells) \<and>
                        lower (hd cells) \<notin> set [''form name'', ''form name ''] \<and>
                        lower (cells ! 0) \<notin> set ['''', NOT_SPECIFIED])
          (map row_cells (table_lines text))) \<and>
   extract_form_table ''| SNAP-1 | 12 | Application | English | PDF |'' = [] \<and>
   extract_form_table ''| Not Specified on Website | 12 | App | English | u | PDF |'' = [] \<and>
   extract_form_table ''| Renewal | R-2 | Renewal form | Spanish | https://x.org/r | PDF |'' =
     [\<lparr>form_name = Some ''Renewal'', form_number = Some ''R-2'',
       description = Some ''Renewal form'', language = Some ''Spanish'',
       url = Some ''https://x.org/r'', file_type = Some ''PDF''\<rparr>]"
proof -
  have "\<And>cells :: string list. 6 \<le> length cells \<Longrightarrow> cells \<noteq> []" by auto
  then have general: "extract_form_table text =
     map (\<lambda>row. \<lparr>form_name = normalize (Some (row ! 0)),
                 form_number = normalize (Some (row ! 1)),
                 description = normalize (Some (row ! 2)),
                 language = normalize (Some (row ! 3)),
                 url = normalize (Some (row ! 4)),
                 file_type = normalize (Some (row ! 5))\<rparr>)
       (filter (\<lambda>cells. 6 \<le> length cells \<and>
                        \<not> list_all separator_cell (filter (\<lambda>c. c \<noteq> []) cells) \<and>
                        lower (hd cells) \<notin> set [''form name'', ''form name ''] \<and>
                        lower (cells ! 0) \<notin> set ['''', NOT_SPECIFIED])
          (map row_cells (table_lines text)))"
    unfolding extract_form_table_def data_rows_loop_eq forms_loop_eq NOT_SPECIFIED_def
    by (auto intro!: arg_cong [where f = "map _"] filter_cong simp: not_less)
  have five: "extract_form_table ''| SNAP-1 | 12 | Application | English | PDF |'' = []"
    by code_simp
  have unspecified:
    "extract_form_table ''| Not Specified on Website | 12 | App | English | u | PDF |'' = []"
    by code_simp
  have six:
    "extract_form_table ''| Renewal | R-2 | Renewal form | Spanish | https://x.org/r | PDF |'' =
     [\<lparr>form_name = Some ''Renewal'', form_number = Some ''R-2'',
       description = Some ''Renewal form'', language = Some ''Spanish'',
       url = Some ''https://x.org/r'', file_type = Some ''PDF''\<rparr>]"
    by code_simp
  from general five unspecified six show ?thesis by blast
qed

text \<open>
  The claim as written says that a row is discarded when its first cell is any sentinel
  after normalization. A row whose first cell is \<^verbatim>\<open>n/a\<close> is kept, with an absent name.
\<close>

theorem form_table_sentinel_counterexample:
  "normalize (Some ''n/a'') = None \<and>
   extract_form_table ''| n/a | R-2 | Renewal form | Spanish | https://x.org/r | PDF |'' =
     [\<lparr>form_name = None, form_number = Some ''R-2'',
       description = Some ''Renewal form'', language = Some ''Spanish'',
       url = Some ''https://x.org/r'', file_type = Some ''PDF''\<rparr>]"
  by code_simp

section \<open>The subsection locator\<close>

lemma sub_header_at_prefix: "sub_header_at label t \<Longrightarrow> prefix ''###'' t"
  by (auto simp: sub_header_at_def)

lemma run_of_spaces: "list_all is_space ws \<Longrightarrow> length ws \<le> length (takeWhile is_space (ws @ x))"
  by (induction ws) auto

lemma subsection_match_complete:
  assumes "sub_header_at label t"
  shows "subsection_match label t \<noteq> None"
proof
  from assms obtain ws nm tail where t: "t = ''###'' @ ws @ nm @ tail" and ne: "ws \<noteq> []"
    and sp: "list_all is_space ws" and len: "length nm = length label"
    and low: "lower nm = lower label" and lf: "LF \<in> set (takeWhile is_space tail)"
    unfolding sub_header_at_def by blast
  let ?r = "ws @ nm @ tail"
  let ?n = "length (takeWhile is_space ?r)"
  let ?f = "\<lambda>k. if ci_prefix label (drop k ?r)
                 then after_name (drop (k + length label) ?r) else None"
  have k: "1 \<le> length ws" "length ws < 1 + ?n"
    using ne run_of_spaces [OF sp, of "nm @ tail"] by (cases ws, simp_all)
  have "ci_prefix label (nm @ tail)" using len low by (simp add: ci_prefix_def)
  then have fk: "?f (length ws) = after_name tail" using len by simp
  assume "subsection_match label t = None"
  moreover have p: "prefix ''###'' t" and r: "drop 3 t = ?r" using t by simp_all
  ultimately have "try_down ?f 1 ?n = None"
    unfolding subsection_match_def Let_def r by simp
  then have "\<forall>k. 1 \<le> k \<and> k < 1 + ?n \<longrightarrow> ?f k = None" by (simp only: try_down_None)
  then have "?f (length ws) = None" using k by blast
  then show False using fk after_name_found [OF lf] by simp
qed

lemma until_marker_deeper_header:
  "CHR ''#'' \<notin> set body \<Longrightarrow> until_marker (body @ ''####'' @ rest) = body"
  by (induction body) auto

text \<open>
  Claim C6, as the code has it. \<^verbatim>\<open>get_subsection\<close> returns the empty string, never an
  error, when no position of the text begins a sub-header for the label. When the
  leftmost such sub-header is \<^verbatim>\<open>###\<close>, whitespace and the label (in any case, not
  beginning with whitespace) followed by whitespace with a line feed, it returns the
  trimmed span from there up to the next occurrence of \<^verbatim>\<open>###\<close> or the end of the text.
  The span holds no \<^verbatim>\<open>###\<close>, so a deeper header \<^verbatim>\<open>####\<close> ends it as well. The predicate
  \<open>sub_header_at\<close> is exactly where the pattern of the source matches.
\<close>

theorem get_subsection_span:
  "((\<forall>i\<le>length text. \<not> sub_header_at label (drop i text)) \<longrightarrow>
      get_subsection text label = []) \<and>
   (text = pre @ ''###'' @ ws @ nm @ tail \<and> ws \<noteq> [] \<and> list_all is_space ws \<and>
    nm \<noteq> [] \<and> \<not> is_space (hd nm) \<and> length nm = length label \<and> lower nm = lower label \<and>
    LF \<in> set (takeWhile is_space tail) \<and>
    (\<forall>i<length pre. \<not> sub_header_at label (drop i text)) \<longrightarrow>
      get_subsection text label = strip (until_marker tail)) \<and>
   prefix (until_marker tail) tail \<and>
   \<not> contains ''###'' (until_marker tail) \<and>
   (until_marker tail = tail \<or> prefix ''###'' (drop (length (until_marker tail)) tail)) \<and>
   (CHR ''#'' \<notin> set body \<longrightarrow> until_marker (body @ ''####'' @ rest) = body) \<and>
   (sub_header_at label t \<longleftrightarrow> subsection_match label t \<noteq> None)"
proof -
  have a: "(\<forall>i\<le>length text. \<not> sub_header_at label (drop i text)) \<longrightarrow>
      get_subsection text label = []"
  proof
    assume h: "\<forall>i\<le>length text. \<not> sub_header_at label (drop i text)"
    have "\<forall>i\<le>length text. subsection_match label (drop i text) = None"
    proof (intro allI impI)
      fix i assume "i \<le> length text"
      then have "\<not> sub_header_at label (drop i text)" using h by blast
      then show "subsection_match label (drop i text) = None"
        using subsection_match_sound by (cases "subsection_match label (drop i text)") auto
    qed
    then have "re_search (subsection_match label) text = None" by (rule re_search_none)
    then show "get_subsection text label = []" by (simp add: get_subsection_def)
  qed
  have b: "text = pre @ ''###'' @ ws @ nm @ tail \<and> ws \<noteq> [] \<and> list_all is_space ws \<and>
    nm \<noteq> [] \<and> \<not> is_space (hd nm) \<and> length nm = length label \<and> lower nm = lower label \<and>
    LF \<in> set (takeWhile is_space tail) \<and>
    (\<forall>i<length pre. \<not> sub_header_at label (drop i text)) \<longrightarrow>
      get_subsection text label = strip (until_marker tail)"
  proof
    assume h: "text = pre @ ''###'' @ ws @ nm @ tail \<and> ws \<noteq> [] \<and> list_all is_space ws \<and>
      nm \<noteq> [] \<and> \<not> is_space (hd nm) \<and> length nm = length label \<and> lower nm = lower label \<and>
      LF \<in> set (takeWhile is_space tail) \<and>
      (\<forall>i<length pre. \<not> sub_header_at label (drop i text))"
    let ?t = "''###'' @ ws @ nm @ tail"
    from h have whole: "text = pre @ ?t" by simp
    from h obtain g where g: "subsection_match label ?t = Some g"
      and sg: "strip g = strip (until_marker tail)"
      using subsection_match_at_header [of ?t ws nm tail label] by blast
    have "\<forall>i<length pre. subsection_match label (drop i (pre @ ?t)) = None"
    proof (intro allI impI)
      fix i assume "i < length pre"
      then have "\<not> sub_header_at label (drop i (pre @ ?t))" using h whole by simp
      then show "subsection_match label (drop i (pre @ ?t)) = None"
        using subsection_match_sound
        by (cases "subsection_match label (drop i (pre @ ?t))") auto
    qed
    then have "re_search (subsection_match label) (pre @ ?t) =
               re_search (subsection_match label) ?t"
      by (rule re_search_skip)
    also have "\<dots> = Some g" using g by (rule re_search_head)
    finally show "get_subsection text label = strip (until_marker tail)"
      using sg whole by (simp add: get_subsection_def)
  qed
  have e: "sub_header_at label t \<longleftrightarrow> subsection_match label t \<noteq> None"
    using subsection_match_sound subsection_match_complete by blast
  from a b e show ?thesis
    using until_marker_prefix until_marker_no_marker until_marker_stops
      until_marker_deeper_header by blast
qed

theorem get_subsection_span_witness:
  "get_subsection
     (''x'' @ [LF] @ ''### Steps'' @ [LF] @ ''1. a'' @ [LF] @ ''#### Deep'' @ [LF] @ ''b'')
     ''steps'' = ''1. a''"
proof -
  let ?tail = "[LF] @ ''1. a'' @ [LF] @ ''#### Deep'' @ [LF] @ ''b''"
  let ?pre = "''x'' @ [LF]"
  let ?text = "?pre @ ''###'' @ '' '' @ ''Steps'' @ ?tail"
  have lf: "LF \<in> set (takeWhile is_space ?tail)" by (simp add: is_space_def)
  have sp: "list_all is_space '' ''" "\<not> is_space (hd ''Steps'')" by (simp_all add: is_space_def)
  have low: "lower ''Steps'' = lower ''steps''" by code_simp
  have left: "\<forall>i<length ?pre. \<not> sub_header_at ''steps'' (drop i ?text)"
  proof (intro allI impI)
    fix i assume "i < length ?pre"
    then have "i = 0 \<or> i = 1" by auto
    then have "\<not> prefix ''###'' (drop i ?text)" by auto
    then show "\<not> sub_header_at ''steps'' (drop i ?text)" using sub_header_at_prefix by blast
  qed
  have val: "strip (until_marker ?tail) = ''1. a''" by code_simp
  have "get_subsection ?text ''steps'' = strip (until_marker ?tail)"
    using get_subsection_span [of ?text "''steps''" ?pre "'' ''" "''Steps''" ?tail] lf sp low left
    by simp
  then show ?thesis using val by simp
qed

text \<open>
  The claim as written says that a deeper header such as \<^verbatim>\<open>####\<close> does not end the span.
  It does: the span of \<^verbatim>\<open>Steps\<close> stops before \<^verbatim>\<open>#### Deep\<close>.
\<close>

theorem get_subsection_deeper_header_counterexample:
  "get_subsection (''### Steps'' @ [LF] @ ''1. a'' @ [LF] @ ''#### Deep'' @ [LF] @ ''b'') ''Steps''
     = ''1. a'' \<and>
   get_subsection (''### Steps'' @ [LF] @ ''1. a'' @ [LF] @ ''#### Deep'' @ [LF] @ ''b'') ''Steps''
     \<noteq> ''1. a'' @ [LF] @ ''#### Deep'' @ [LF] @ ''b''"
  by code_simp

section \<open>The run log of a batch\<close>

lemma main_loop_skips:
  "\<not> is_parsed w st \<Longrightarrow> main_loop t w (st # rest) = main_loop (t\<lparr>skipped := skipped t + 1\<rparr>) w rest"
  by (auto simp: is_parsed_def parse_state_not_found parse_state_pending split: option.splits)

lemma main_loop_parses:
  assumes "is_parsed w st"
  shows "main_loop t w (st # rest) =
     main_loop
       (t\<lparr>processed := processed t + 1,
          total_warnings := total_warnings t +
            length (fst (snd (build_metadata st (split_sections (the (md_files w (folder_name st))))
              (stored_assets w (folder_name st)) (clock w (ticks w))))),
          total_errors := total_errors t +
            length (snd (snd (build_metadata st (split_sections (the (md_files w (folder_name st))))
              (stored_assets w (folder_name st)) (clock w (ticks w))))),
          log := log t @
            [\<lparr>le_state = st_name st,
              le_abbreviation = st_abbreviation st,
              le_parse_timestamp = clock w (Suc (ticks w)),
              le_warnings = fst (snd (build_metadata st (split_sections (the (md_files w (folder_name st))))
                (stored_assets w (folder_name st)) (clock w (ticks w)))),
              le_errors = snd (snd (build_metadata st (split_sections (the (md_files w (folder_name st))))
                (stored_assets w (folder_name st)) (clock w (ticks w))))\<rparr>]\<rparr>)
       (w\<lparr>meta_files := (meta_files w)(folder_name st \<mapsto>
             fst (build_metadata st (split_sections (the (md_files w (folder_name st))))
               (stored_assets w (folder_name st)) (clock w (ticks w)))),
          ticks := Suc (Suc (ticks w))\<rparr>)
       rest"
proof -
  from assms obtain content where c: "md_files w (folder_name st) = Some content"
    and np: "\<not> contains PLACEHOLDER_MARKER content"
    by (auto simp: is_parsed_def split: option.splits)
  obtain m ws es where b:
    "build_metadata st (split_sections content) (stored_assets w (folder_name st))
       (clock w (ticks w)) = (m, ws, es)"
    by (metis prod_cases3)
  show ?thesis
    using parse_state_parsed [OF c np b] c b by (simp add: now_def)
qed


lemma main_loop_log:
  assumes "md_files w' = md_files w" and "stored_assets w' = stored_assets w"
    and "clock w' = clock w" and "ticks w' = ticks w + 2 * n"
  shows "log (fst (main_loop t w' sts)) =
           log t @ map (\<lambda>(i, st). expected_entry w i st) (enumerate n (filter (is_parsed w) sts))"
  using assms
proof (induction sts arbitrary: t w' n)
  case Nil
  then show ?case by simp
next
  case (Cons st sts)
  have same: "is_parsed w' st = is_parsed w st" using Cons.prems(1) by (simp add: is_parsed_def)
  show ?case
  proof (cases "is_parsed w st")
    case False
    then have "main_loop t w' (st # sts) = main_loop (t\<lparr>skipped := skipped t + 1\<rparr>) w' sts"
      using same main_loop_skips by simp
    then show ?thesis using Cons.IH [OF Cons.prems] False by simp
  next
    case True
    let ?w2 = "w'\<lparr>meta_files := (meta_files w')(folder_name st \<mapsto>
             fst (build_metadata st (split_sections (the (md_files w' (folder_name st))))
               (stored_assets w' (folder_name st)) (clock w' (ticks w')))),
          ticks := Suc (Suc (ticks w'))\<rparr>"
    have inv: "md_files ?w2 = md_files w" "stored_assets ?w2 = stored_assets w"
      "clock ?w2 = clock w" "ticks ?w2 = ticks w + 2 * Suc n"
      using Cons.prems by simp_all
    have entry: "\<lparr>le_state = st_name st,
              le_abbreviation = st_abbreviation st,
              le_parse_timestamp = clock w' (Suc (ticks w')),
              le_warnings = fst (snd (build_metadata st (split_sections (the (md_files w' (folder_name st))))
                (stored_assets w' (folder_name st)) (clock w' (ticks w')))),
              le_errors = snd (snd (build_metadata st (split_sections (the (md_files w' (folder_name st))))
                (stored_assets w' (folder_name st)) (clock w' (ticks w'))))\<rparr> = expected_entry w n st"
      using Cons.prems by (simp add: expected_entry_def Let_def)
    have "is_parsed w' st" using True same by simp
    note step = main_loop_parses [OF this, of t sts]
    show ?thesis
      unfolding step entry using Cons.IH [OF inv] True by simp
  qed
qed

lemma main_loop_counts:
  assumes "md_files w' = md_files w"
  shows "processed (fst (main_loop t w' sts)) = processed t + length (filter (is_parsed w) sts) \<and>
         skipped (fst (main_loop t w' sts)) =
           skipped t + length (filter (\<lambda>st. \<not> is_parsed w st) sts)"
  using assms
proof (induction sts arbitrary: t w')
  case Nil
  then show ?case by simp
next
  case (Cons st sts)
  have same: "is_parsed w' st = is_parsed w st" using Cons.prems(1) by (simp add: is_parsed_def)
  show ?case
  proof (cases "is_parsed w st")
    case False
    then have f: "\<not> is_parsed w' st" using same by simp
    show ?thesis unfolding main_loop_skips [OF f] using Cons.IH [OF Cons.prems] False by simp
  next
    case True
    then have p: "is_parsed w' st" using same by simp
    let ?w2 = "w'\<lparr>meta_files := (meta_files w')(folder_name st \<mapsto>
             fst (build_metadata st (split_sections (the (md_files w' (folder_name st))))
               (stored_assets w' (folder_name st)) (clock w' (ticks w')))),
          ticks := Suc (Suc (ticks w'))\<rparr>"
    have inv: "md_files ?w2 = md_files w" using Cons.prems by simp
    show ?thesis unfolding main_loop_parses [OF p] using Cons.IH [OF inv] True by simp
  qed
qed

text \<open>
  Claim C7, as the code has it. A run of \<^verbatim>\<open>main\<close> whose \<^verbatim>\<open>--state\<close> filter selects no
  jurisdiction exits with status 1 and leaves every file as it was. Every other run
  appends to the in-memory log exactly one entry (name, abbreviation, timestamp, warnings,
  errors) for each selected jurisdiction whose report was parsed, in the order of the
  batch, and none for a jurisdiction that was skipped (report missing or pending); the log
  file after the run is the list read at the start of the run (empty when the file is
  absent or not decodable) followed by the new entries.
\<close>

theorem batch_log_entries:
  "if truthy (arg_state a) \<and> selected_states a w = [] then main a w = ((1, None), w)
   else
     parse_log_file (snd (main a w)) =
       Log (load_log w @
            map (\<lambda>(i, st). expected_entry w i st)
              (enumerate 0 (filter (is_parsed w) (selected_states a w)))) \<and>
     (\<exists>t. snd (fst (main a w)) = Some t \<and>
          processed t = length (filter (is_parsed w) (selected_states a w)) \<and>
          skipped t = length (filter (\<lambda>st. \<not> is_parsed w st) (selected_states a w)))"
proof (cases "truthy (arg_state a) \<and> selected_states a w = []")
  case True
  then show ?thesis by (simp add: main_def)
next
  case False
  let ?t0 = "\<lparr>log = load_log w, total_errors = 0, total_warnings = 0,
              processed = 0, skipped = 0\<rparr>"
  let ?sel = "selected_states a w"
  obtain t w1 where l: "main_loop ?t0 w ?sel = (t, w1)" by (metis surj_pair)
  have m: "main a w = ((if strict a \<and> 0 < total_errors t then 1 else 0, Some t), save_log w1 (log t))"
    using False l by (simp add: main_def Let_def)
  have "log t = load_log w @ map (\<lambda>(i, st). expected_entry w i st)
                  (enumerate 0 (filter (is_parsed w) ?sel))"
    using main_loop_log [of w w 0 ?t0 ?sel] l by simp
  moreover have "processed t = length (filter (is_parsed w) ?sel) \<and>
      skipped t = length (filter (\<lambda>st. \<not> is_parsed w st) ?sel)"
    using main_loop_counts [of w w ?t0 ?sel] l by simp
  ultimately show ?thesis using False m by (simp add: save_log_def)
qed

theorem batch_log_entries_witness:
  "parse_log_file (snd (main \<lparr>arg_state = None, strict = False\<rparr>
     \<lparr>md_files = [''ca'' \<mapsto> ''Not yet collected.'', ''ny'' \<mapsto> ''x''],
      meta_files = Map.empty, stored_assets = (\<lambda>f. (0, 0)),
      states_file =
        [\<lparr>st_name = ''California'', st_abbreviation = ''CA'', folder_name = ''ca''\<rparr>,
         \<lparr>st_name = ''New York'', st_abbreviation = ''NY'', folder_name = ''ny''\<rparr>,
         \<lparr>st_name = ''Texas'', st_abbreviation = ''TX'', folder_name = ''tx''\<rparr>],
      parse_log_file = NoLog, clock = (\<lambda>n. ''t''), ticks = 0\<rparr>)) =
   Log [expected_entry
     \<lparr>md_files = [''ca'' \<mapsto> ''Not yet collected.'', ''ny'' \<mapsto> ''x''],
      meta_files = Map.empty, stored_assets = (\<lambda>f. (0, 0)),
      states_file =
        [\<lparr>st_name = ''California'', st_abbreviation = ''CA'', folder_name = ''ca''\<rparr>,
         \<lparr>st_name = ''New York'', st_abbreviation = ''NY'', folder_name = ''ny''\<rparr>,
         \<lparr>st_name = ''Texas'', st_abbreviation = ''TX'', folder_name = ''tx''\<rparr>],
      parse_log_file = NoLog, clock = (\<lambda>n. ''t''), ticks = 0\<rparr> 0
     \<lparr>st_name = ''New York'', st_abbreviation = ''NY'', folder_name = ''ny''\<rparr>]"
proof -
  let ?a = "\<lparr>arg_state = None, strict = False\<rparr>"
  let ?w = "\<lparr>md_files = [''ca'' \<mapsto> ''Not yet collected.'', ''ny'' \<mapsto> ''x''],
      meta_files = Map.empty, stored_assets = (\<lambda>f. (0, 0)),
      states_file =
        [\<lparr>st_name = ''California'', st_abbreviation = ''CA'', folder_name = ''ca''\<rparr>,
         \<lparr>st_name = ''New York'', st_abbreviation = ''NY'', folder_name = ''ny''\<rparr>,
         \<lparr>st_name = ''Texas'', st_abbreviation = ''TX'', folder_name = ''tx''\<rparr>],
      parse_log_file = NoLog, clock = (\<lambda>n. ''t''), ticks = 0\<rparr>"
  have c: "\<not> (truthy (arg_state ?a) \<and> selected_states ?a ?w = [])" by (simp add: truthy_def)
  have l: "load_log ?w = []" by (simp add: load_log_def)
  have f: "filter (is_parsed ?w) (selected_states ?a ?w) = [\<lparr>st_name = ''New York'', st_abbreviation = ''NY'', folder_name = ''ny''\<rparr>]"
    by (simp add: selected_states_def truthy_def load_states_def is_parsed_def
        PLACEHOLDER_MARKER_def)
  from batch_log_entries [of ?a ?w] c have
    "parse_log_file (snd (main ?a ?w)) =
       Log (load_log ?w @
            map (\<lambda>(i, st). expected_entry ?w i st)
              (enumerate 0 (filter (is_parsed ?w) (selected_states ?a ?w))))"
    by (simp only: if_False)
  then show ?thesis unfolding l f by simp
qed

text \<open>
  The claim as written counts one log entry for every parsed or skipped document. In a
  batch of three jurisdictions of which one is parsed and two are skipped, one entry is
  appended.
\<close>

theorem batch_log_skipped_counterexample:
  "map_option processed (snd (fst (main \<lparr>arg_state = None, strict = False\<rparr>
     \<lparr>md_files = [''ca'' \<mapsto> ''Not yet collected.'', ''ny'' \<mapsto> ''x''],
      meta_files = Map.empty, stored_assets = (\<lambda>f. (0, 0)),
      states_file =
        [\<lparr>st_name = ''California'', st_abbreviation = ''CA'', folder_name = ''ca''\<rparr>,
         \<lparr>st_name = ''New York'', st_abbreviation = ''NY'', folder_name = ''ny''\<rparr>,
         \<lparr>st_name = ''Texas'', st_abbreviation = ''TX'', folder_name = ''tx''\<rparr>],
      parse_log_file = NoLog, clock = (\<lambda>n. ''t''), ticks = 0\<rparr>))) = Some 1 \<and>
   map_option skipped (snd (fst (main \<lparr>arg_state = None, strict = False\<rparr>
     \<lparr>md_files = [''ca'' \<mapsto> ''Not yet collected.'', ''ny'' \<mapsto> ''x''],
      meta_files = Map.empty, stored_assets = (\<lambda>f. (0, 0)),
      states_file =
        [\<lparr>st_name = ''California'', st_abbreviation = ''CA'', folder_name = ''ca''\<rparr>,
         \<lparr>st_name = ''New York'', st_abbreviation = ''NY'', folder_name = ''ny''\<rparr>,
         \<lparr>st_name = ''Texas'', st_abbreviation = ''TX'', folder_name = ''tx''\<rparr>],
      parse_log_file = NoLog, clock = (\<lambda>n. ''t''), ticks = 0\<rparr>))) = Some 2 \<and>
   length (load_log (snd (main \<lparr>arg_state = None, strict = False\<rparr>
     \<lparr>md_files = [''ca'' \<mapsto> ''Not yet collected.'', ''ny'' \<mapsto> ''x''],
      meta_files = Map.empty, stored_assets = (\<lambda>f. (0, 0)),
      states_file =
        [\<lparr>st_name = ''California'', st_abbreviation = ''CA'', folder_name = ''ca''\<rparr>,
         \<lparr>st_name = ''New York'', st_abbreviation = ''NY'', folder_name = ''ny''\<rparr>,
         \<lparr>st_name = ''Texas'', st_abbreviation = ''TX'', folder_name = ''tx''\<rparr>],
      parse_log_file = NoLog, clock = (\<lambda>n. ''t''), ticks = 0\<rparr>))) = 1"
  by code_simp

section \<open>The section splitter\<close>

lemma takeWhile_not_LF: "LF \<notin> set s \<Longrightarrow> takeWhile (\<lambda>c. c \<noteq> LF) s = s"
  by (induction s) auto

lemma ws_group_all_spaces:
  assumes "list_all is_space r" and "2 \<le> length r" and "LF \<notin> set r"
  shows "ws_group 1 r = Some [last r]"
proof -
  have run: "takeWhile is_space r = r" using assms(1) by (simp add: list_all_iff)
  obtain m where m: "length r = Suc (Suc m)" using assms(2)
    by (metis One_nat_def Suc_1 Suc_le_D Suc_le_mono)
  have "drop (Suc m) r = [last r]"
    using m by (metis Suc_length_conv append_butlast_last_id append_eq_conv_conj
        length_butlast diff_Suc_1 list.distinct(1))
  moreover have "last r \<noteq> LF" using assms(3) m by (metis last_in_set length_0_conv nat.distinct(1))
  ultimately have "dot_plus (drop (Suc m) r) = Some [last r]" by (simp add: dot_plus_def)
  moreover have "dot_plus (drop (Suc (Suc m)) r) = None" using m by (simp add: dot_plus_def)
  ultimately show ?thesis unfolding ws_group_def Let_def run m by simp
qed

lemma header_match_plain:
  assumes "LF \<notin> set line"
  shows "(header_match line \<noteq> None \<longleftrightarrow>
           prefix ''##'' line \<and> 4 \<le> length line \<and> is_space (line ! 2)) \<and>
         (\<forall>g. header_match line = Some g \<longrightarrow> upper (strip g) = upper (strip (drop 2 line)))"
proof (cases "prefix ''##'' line")
  case False
  then show ?thesis by (simp add: header_match_def)
next
  case True
  then obtain r where line: "line = ''##'' @ r" by (auto simp: prefix_def)
  have hm: "header_match line = ws_group 1 r" using line by (simp add: header_match_def)
  have nolf: "LF \<notin> set r" using assms line by simp
  let ?n = "length (takeWhile is_space r)"
  show ?thesis
  proof (cases "?n = 0")
    case True
    then have "ws_group 1 r = None" by (simp add: ws_group_def)
    moreover have "r = [] \<or> \<not> is_space (r ! 0)" using True by (cases r) (auto split: if_splits)
    then have "\<not> (4 \<le> length line \<and> is_space (line ! 2))" using line by auto
    ultimately show ?thesis using hm by simp
  next
    case False
    then have n: "1 \<le> ?n" by (cases "takeWhile is_space r") simp_all
    then have sp: "is_space (line ! 2)" using line by (cases r) (auto split: if_splits)
    show ?thesis
    proof (cases "dropWhile is_space r = []")
      case False
      from ws_group_greedy [OF False n] have
        g: "ws_group 1 r = Some (dropWhile is_space r)"
        using nolf takeWhile_not_LF [of "dropWhile is_space r"] set_dropWhileD by fastforce
      have "length r = ?n + length (dropWhile is_space r)"
        by (metis length_append takeWhile_dropWhile_id)
      then have "4 \<le> length line" using n False line by (cases "dropWhile is_space r") auto
      moreover have "strip (dropWhile is_space r) = strip r"
        by (simp add: strip_def lstrip_def dropWhile_idem)
      ultimately show ?thesis using hm g sp True line by simp
    next
      case True
      then have all: "list_all is_space r" by (simp add: dropWhile_eq_Nil_conv list_all_iff)
      then have sr: "strip r = []" by (simp add: strip_Nil_iff list_all_iff)
      show ?thesis
      proof (cases "2 \<le> length r")
        case True
        have "is_space (last r)" using all True
          by (metis last_in_set list_all_iff list.size(3) not_numeral_le_zero)
        then have "strip [last r] = []" by (simp add: strip_Nil_iff)
        then show ?thesis using ws_group_all_spaces [OF all True nolf] hm sp sr \<open>prefix ''##'' line\<close> line True
          by simp
      next
        case False
        then have "length r = 1" using n length_takeWhile_le [of is_space r] by simp
        then obtain c where "r = [c]" by (cases r) auto
        then have "ws_group 1 r = None" using all by (simp add: ws_group_def dot_plus_def)
        then show ?thesis using hm line \<open>r = [c]\<close> by simp
      qed
    qed
  qed
qed

lemma splitlines_from_no_LF:
  "LF \<notin> set cur \<Longrightarrow> l \<in> set (splitlines_from cur t) \<Longrightarrow> LF \<notin> set l"
proof (induction cur t rule: splitlines_from.induct)
  case (1 cur)
  then show ?case by (auto split: if_splits)
next
  case (2 cur c cs)
  have "is_linebreak LF" by (simp add: is_linebreak_def)
  then show ?case using 2 by (auto split: if_splits)
qed

lemma splitlines_no_LF: "l \<in> set (splitlines t) \<Longrightarrow> LF \<notin> set l"
  unfolding splitlines_def using splitlines_from_no_LF [of "[]"] by simp

lemma split_loop_blocks:
  "split_loop sections key cur ls =
     sections ++ map_of (rev (map block_text (blocks_from key cur ls)))"
proof (induction ls arbitrary: sections key cur)
  case Nil
  show ?case by (rule ext) (simp add: block_text_def map_add_def)
next
  case (Cons line ls)
  show ?case
  proof (cases "header_match line")
    case None
    then show ?thesis using Cons.IH by simp
  next
    case (Some g)
    let ?rest = "blocks_from (upper (strip g)) [] ls"
    have "split_loop sections key cur (line # ls) =
            split_loop (sections(key \<mapsto> join [LF] cur)) (upper (strip g)) [] ls"
      using Some by simp
    also have "\<dots> = sections(key \<mapsto> join [LF] cur) ++ map_of (rev (map block_text ?rest))"
      by (rule Cons.IH)
    also have "\<dots> = sections ++ map_of (rev (map block_text ((key, cur) # ?rest)))"
      by (rule ext) (simp add: map_add_def map_of_append block_text_def split: option.splits)
    finally show ?thesis using Some by simp
  qed
qed

lemma blocks_from_first: "key \<in> fst ` set (blocks_from key cur ls)"
  by (induction ls arbitrary: cur) (auto split: option.splits)

lemma blocks_from_headers:
  "line \<in> set ls \<Longrightarrow> header_match line = Some g \<Longrightarrow>
   upper (strip g) \<in> fst ` set (blocks_from key cur ls)"
proof (induction ls arbitrary: key cur)
  case Nil
  then show ?case by simp
next
  case (Cons l ls)
  show ?case
  proof (cases "line = l")
    case True
    then show ?thesis using Cons.prems(2) blocks_from_first by simp
  next
    case False
    then have "line \<in> set ls" using Cons.prems(1) by simp
    then show ?thesis using Cons.IH Cons.prems(2) by (auto split: option.splits)
  qed
qed

lemma blocks_from_lines:
  "concat (map snd (blocks_from key cur ls)) = cur @ filter (\<lambda>l. header_match l = None) ls"
  by (induction ls arbitrary: key cur) (auto split: option.splits)

lemma blocks_from_length:
  "length (blocks_from key cur ls) = Suc (length (filter (\<lambda>l. header_match l \<noteq> None) ls))"
  by (induction ls arbitrary: key cur) (auto split: option.splits)

lemma header_match_deeper: "prefix ''###'' line \<Longrightarrow> header_match line = None"
proof -
  assume "prefix ''###'' line"
  then obtain r where "line = ''##'' @ CHR ''#'' # r" by (auto simp: prefix_def)
  then have "prefix ''##'' line" "takeWhile is_space (drop 2 line) = []"
    using not_space_hash by simp_all
  then show ?thesis by (simp add: header_match_def ws_group_def)
qed

lemma map_of_last_wins:
  assumes "k \<notin> fst ` set bs2"
  shows "map_of (rev (map block_text (bs1 @ (k, b) # bs2))) k = Some (join [LF] b)"
proof -
  have "k \<notin> fst ` set (rev (map block_text bs2))" using assms by (force simp: block_text_def)
  then have "map_of (rev (map block_text bs2)) k = None" by (simp add: map_of_eq_None_iff)
  then show ?thesis by (simp add: map_of_append map_add_def block_text_def)
qed

text \<open>
  Claim C8. For every document text, the map produced by \<^verbatim>\<open>split_sections\<close> is the list
  of blocks of the document read with the later block of a name winning; its keys are
  the names of all blocks, so it holds the preamble and the name of every header line
  seen, also when the block has no line; the lines of the blocks are the lines that are
  no header, each once and in order, and there is one block more than header lines; a line
  that begins with \<^verbatim>\<open>###\<close> (so also \<^verbatim>\<open>####\<close>) is no header and is added to the block
  being read; and a name that is not the name of a later block is mapped to the joined
  lines of its block. A header is a line that begins with \<^verbatim>\<open>##\<close>, a whitespace character
  and at least one more character; its name is the rest of the line, trimmed and in
  upper case.
\<close>

theorem split_sections_blocks:
  "split_sections text = map_of (rev (map block_text (blocks text))) \<and>
   dom (split_sections text) = fst ` set (blocks text) \<and>
   ''_preamble'' \<in> dom (split_sections text) \<and>
   (\<forall>line\<in>set (splitlines text). \<forall>g. header_match line = Some g \<longrightarrow>
      upper (strip g) \<in> dom (split_sections text)) \<and>
   concat (map snd (blocks text)) = filter (\<lambda>l. header_match l = None) (splitlines text) \<and>
   length (blocks text) = Suc (length (filter (\<lambda>l. header_match l \<noteq> None) (splitlines text))) \<and>
   (prefix ''###'' line \<longrightarrow>
      header_match line = None \<and>
      split_loop sections key cur (line # rest) = split_loop sections key (cur @ [line]) rest) \<and>
   (blocks text = bs1 @ (k, b) # bs2 \<and> k \<notin> fst ` set bs2 \<longrightarrow>
      split_sections text k = Some (join [LF] b)) \<and>
   (\<forall>line\<in>set (splitlines text).
      (header_match line \<noteq> None \<longleftrightarrow>
         prefix ''##'' line \<and> 4 \<le> length line \<and> is_space (line ! 2)) \<and>
      (\<forall>g. header_match line = Some g \<longrightarrow> upper (strip g) = upper (strip (drop 2 line))))"
proof -
  have m: "split_sections text = map_of (rev (map block_text (blocks text)))"
    by (simp add: split_sections_def blocks_def split_loop_blocks)
  have "fst ` set (rev (map block_text (blocks text))) = fst ` set (blocks text)"
    by (force simp: block_text_def)
  then have d: "dom (split_sections text) = fst ` set (blocks text)"
    unfolding m by (simp add: dom_map_of_conv_image_fst)
  have p: "''_preamble'' \<in> dom (split_sections text)"
    unfolding d blocks_def by (rule blocks_from_first)
  have h: "\<forall>line\<in>set (splitlines text). \<forall>g. header_match line = Some g \<longrightarrow>
      upper (strip g) \<in> dom (split_sections text)"
    unfolding d blocks_def using blocks_from_headers by blast
  have c: "concat (map snd (blocks text)) = filter (\<lambda>l. header_match l = None) (splitlines text)"
    by (simp add: blocks_def blocks_from_lines)
  have l: "length (blocks text) = Suc (length (filter (\<lambda>l. header_match l \<noteq> None) (splitlines text)))"
    unfolding blocks_def by (rule blocks_from_length)
  have s: "prefix ''###'' line \<longrightarrow>
      header_match line = None \<and>
      split_loop sections key cur (line # rest) = split_loop sections key (cur @ [line]) rest"
    using header_match_deeper [of line] by simp
  have w: "blocks text = bs1 @ (k, b) # bs2 \<and> k \<notin> fst ` set bs2 \<longrightarrow>
      split_sections text k = Some (join [LF] b)"
    unfolding m using map_of_last_wins [of k bs2 bs1 b] by auto
  have q: "\<forall>line\<in>set (splitlines text).
      (header_match line \<noteq> None \<longleftrightarrow>
         prefix ''##'' line \<and> 4 \<le> length line \<and> is_space (line ! 2)) \<and>
      (\<forall>g. header_match line = Some g \<longrightarrow> upper (strip g) = upper (strip (drop 2 line)))"
    using header_match_plain splitlines_no_LF by blast
  from m d p h c l s w q show ?thesis by blast
qed

theorem split_sections_blocks_witness:
  "split_sections (''p'' @ [LF] @ ''## A'' @ [LF] @ ''x'' @ [LF] @ ''#### deep'' @ [LF] @ ''## B'' @ [LF] @ ''## a'') ''A'' = Some [] \<and>
   split_sections (''p'' @ [LF] @ ''## A'' @ [LF] @ ''x'' @ [LF] @ ''#### deep'' @ [LF] @ ''## B'' @ [LF] @ ''## a'') ''B'' = Some []"
proof -
  let ?text = "''p'' @ [LF] @ ''## A'' @ [LF] @ ''x'' @ [LF] @ ''#### deep'' @ [LF] @ ''## B'' @ [LF] @ ''## a''"
  have b: "blocks ?text =
      [(''_preamble'', [''p'']), (''A'', [''x'', ''#### deep''])] @ (''B'', []) # [(''A'', [])]"
    by code_simp
  let ?pre = "[(''_preamble'', [''p'']), (''A'', [''x'', ''#### deep''])]"
  let ?last = "[(''A'', [])] :: (string \<times> string list) list"
  let ?none = "[] :: (string \<times> string list) list"
  have "blocks ?text = ?pre @ (''B'', []) # ?last \<and> ''B'' \<notin> fst ` set ?last \<longrightarrow>
      split_sections ?text ''B'' = Some (join [LF] [])"
    using split_sections_blocks
      [of ?text "[]" Map.empty "[]" "[]" "[]" ?pre "''B''" "[]" ?last]
    by blast
  then have "split_sections ?text ''B'' = Some []" using b by simp
  moreover have "blocks ?text = (?pre @ [(''B'', [])]) @ (''A'', []) # ?none \<and>
      ''A'' \<notin> fst ` set ?none \<longrightarrow>
      split_sections ?text ''A'' = Some (join [LF] [])"
    using split_sections_blocks
      [of ?text "[]" Map.empty "[]" "[]" "[]" "?pre @ [(''B'', [])]" "''A''" "[]" ?none]
    by blast
  then have "split_sections ?text ''A'' = Some []" using b by simp
  ultimately show ?thesis by simp
qed

section \<open>A document without one of its required blocks\<close>

lemma blocks_from_no_header:
  "\<forall>l\<in>set body. header_match l = None \<Longrightarrow> blocks_from key cur body = [(key, cur @ body)]"
  by (induction body arbitrary: cur) auto

lemma blocks_from_append_header:
  "header_match h = Some g \<Longrightarrow>
   blocks_from key cur (xs @ h # ys) = blocks_from key cur xs @ blocks_from (upper (strip g)) [] ys"
  by (induction xs arbitrary: key cur) (auto split: option.splits)

lemma blocks_from_keys:
  "fst ` set (blocks_from key cur ls) =
     insert key {upper (strip g) |g l. l \<in> set ls \<and> header_match l = Some g}"
proof (induction ls arbitrary: key cur)
  case Nil
  then show ?case by simp
next
  case (Cons l ls)
  show ?case
  proof (cases "header_match l")
    case None
    then show ?thesis using Cons.IH [of key "cur @ [l]"] by auto
  next
    case (Some g)
    then show ?thesis using Cons.IH [of "upper (strip g)" "[]"] by auto
  qed
qed

lemma blocks_remove:
  assumes "header_match h = Some g"
    and "\<forall>l\<in>set body. header_match l = None"
    and "post = [] \<or> header_match (hd post) \<noteq> None"
  shows "\<exists>A B. blocks_from key cur (pre @ h # body @ post) = A @ (upper (strip g), body) # B \<and>
               blocks_from key cur (pre @ post) = A @ B \<and>
               fst ` set (A @ B) \<subseteq> fst ` set (blocks_from key cur (pre @ post))"
proof (cases post)
  case Nil
  have "blocks_from key cur (pre @ h # body @ post) =
          blocks_from key cur pre @ [(upper (strip g), body)]"
    using Nil blocks_from_append_header [OF assms(1)] blocks_from_no_header [OF assms(2)] by simp
  then show ?thesis using Nil by (intro exI [of _ "blocks_from key cur pre"] exI [of _ "[]"]) simp
next
  case (Cons h' post')
  then obtain g' where g': "header_match h' = Some g'" using assms(3) by auto
  have "blocks_from (upper (strip g)) [] (body @ h' # post') =
          (upper (strip g), body) # blocks_from (upper (strip g')) [] post'"
    using blocks_from_append_header [OF g'] blocks_from_no_header [OF assms(2)] by simp
  then have "blocks_from key cur (pre @ h # body @ post) =
          blocks_from key cur pre @ (upper (strip g), body) # blocks_from (upper (strip g')) [] post'"
    using Cons blocks_from_append_header [OF assms(1)] by simp
  moreover have "blocks_from key cur (pre @ post) =
          blocks_from key cur pre @ blocks_from (upper (strip g')) [] post'"
    using Cons blocks_from_append_header [OF g'] by simp
  ultimately show ?thesis
    by (intro exI [of _ "blocks_from key cur pre"]
              exI [of _ "blocks_from (upper (strip g')) [] post'"]) simp
qed

lemma map_of_remove:
  assumes "k \<notin> fst ` set (A @ B)"
  shows "map_of (rev (map block_text (A @ B))) =
           (map_of (rev (map block_text (A @ (k, body) # B))))(k := None)"
proof (rule ext)
  fix x
  have kA: "map_of (rev (map block_text A)) k = None" and kB: "map_of (rev (map block_text B)) k = None"
    using assms by (force simp: map_of_eq_None_iff block_text_def)+
  show "map_of (rev (map block_text (A @ B))) x =
        ((map_of (rev (map block_text (A @ (k, body) # B))))(k := None)) x"
    using kA kB by (simp add: map_of_append map_add_def block_text_def split: option.splits)
qed

lemma removes_block_sections:
  assumes "removes_block k content content'" and "k \<noteq> ''_preamble''"
  shows "split_sections content' = (split_sections content)(k := None)"
proof -
  from assms(1) obtain pre h g body post where
    full: "splitlines content = pre @ h # body @ post" and
    rem: "splitlines content' = pre @ post" and
    h: "header_match h = Some g" and k: "upper (strip g) = k" and
    body: "\<forall>l\<in>set body. header_match l = None" and
    post: "post = [] \<or> header_match (hd post) \<noteq> None" and
    uniq: "\<forall>l\<in>set (pre @ post). \<forall>g'. header_match l = Some g' \<longrightarrow> upper (strip g') \<noteq> k"
    unfolding removes_block_def by blast
  from blocks_remove [OF h body post, of "''_preamble''" "[]" pre] k obtain A B where
    a: "blocks content = A @ (k, body) # B" and b: "blocks content' = A @ B"
    unfolding blocks_def full rem by blast
  have "fst ` set (blocks content') =
      insert ''_preamble'' {upper (strip g) |g l. l \<in> set (pre @ post) \<and> header_match l = Some g}"
    unfolding blocks_def rem by (rule blocks_from_keys)
  then have "k \<notin> fst ` set (A @ B)" using uniq assms(2) unfolding b by auto
  then show ?thesis
    using map_of_remove [of k A B body] a b
    by (simp add: split_sections_def split_loop_blocks blocks_def)
qed

lemma extract_field_Nil: "extract_field [] f = None"
  by (simp add: extract_field_def field_match_def ci_prefix_def)

lemma get_subsection_Nil: "get_subsection [] n = []"
  by (simp add: get_subsection_def subsection_match_def)

lemma splitlines_Nil: "splitlines [] = []"
  by (simp add: splitlines_def)

lemma extractors_Nil:
  "extract_numbered_steps [] = []" "extract_list_items [] = []" "extract_form_table [] = []"
  by (simp_all add: extract_numbered_steps_def extract_list_items_def extract_form_table_def
      table_lines_def splitlines_Nil)

lemma count_field_Nil: "count_field [] f = None"
  by (simp add: count_field_def extract_field_Nil truthy_def)

lemma app_steps_Nil: "app_steps [] = []"
  by (simp add: app_steps_def get_subsection_Nil extractors_Nil)

lemma to_bool_None: "to_bool None = None"
  by (simp add: to_bool_def)

lemma parse_interview_Nil:
  "parse_interview [] =
     \<lparr>required = None, type_options = None, scheduling_who_initiates = None,
      scheduling_url = None, hours_specified = False, hours_description = None,
      evening_weekend_hours = None, hours_notes = None, reminders_sent = None,
      reminder_method = None, reschedule_available = None, reschedule_method = None,
      reschedule_url = None, missed_interview_penalty = None, good_cause_exceptions = None,
      good_cause_notes = None\<rparr>"
  by (simp add: parse_interview_def get_subsection_Nil extract_field_Nil to_bool_None
      interview_types_of_def truthy_def)

lemma parse_forms_Nil: "parse_forms [] = (\<lparr>total_count = None, form_list = []\<rparr>, [])"
  by (simp add: parse_forms_def count_field_Nil extractors_Nil)

lemma parse_language_Nil:
  "parse_language [] =
     \<lparr>website_languages = None, form_languages = None, translation_method = None,
      la_notes = None\<rparr>"
  by (simp add: parse_language_def extract_field_Nil split_langs_def truthy_def)

lemma build_metadata_unfold:
  fixes secs :: "string \<rightharpoonup> string"
  defines "app \<equiv> section_get secs ''APPLICATION PROCESS''"
    and "docs \<equiv> section_get secs ''REQUIRED DOCUMENTS''"
    and "iv \<equiv> section_get secs ''INTERVIEW REQUIREMENTS''"
    and "fm \<equiv> section_get secs ''FORMS''"
    and "lang \<equiv> section_get secs ''LANGUAGE ACCESS''"
    and "cx \<equiv> section_get secs ''COMPLEXITY ASSESSMENT''"
    and "urls \<equiv> section_get secs ''URLS REFERENCED''"
    and "pre \<equiv> section_get secs ''_preamble''"
  shows "build_metadata st secs d ts =
    (\<lparr>md_state = st_name st,
      md_abbreviation = st_abbreviation st,
      collected_date = fst (parse_preamble pre),
      source_url = fst (snd (parse_preamble pre)),
      md_application =
        \<lparr>online_available = to_bool (extract_field app ''Online Application Available''),
         online_url = extract_field app ''Online Application URL'',
         online_doc_submission =
           to_bool (extract_field app ''Online Document Submission Available''),
         online_doc_submission_notes = extract_field app ''Online Document Submission Notes'',
         app_steps_count = final_steps_count cx (app_steps app),
         steps = app_steps app\<rparr>,
      md_documents =
        \<lparr>specified_on_website = (0 < length (extract_list_items docs)),
         document_list = extract_list_items docs\<rparr>,
      md_interview = parse_interview iv,
      md_forms = fst (parse_forms fm),
      md_language_access = parse_language lang,
      md_complexity =
        \<lparr>steps_count = final_steps_count cx (app_steps app),
         forms_to_complete = count_field cx ''Estimated Total Forms to Complete'',
         reading_level = extract_field cx ''Estimated Reading Level'',
         reading_level_notes = extract_field cx ''Reading Level Notes''\<rparr>,
      md_assets =
        \<lparr>pages_referenced = fst (if urls \<noteq> [] then parse_urls_section urls else (0, 0)),
         downloads_referenced = snd (if urls \<noteq> [] then parse_urls_section urls else (0, 0)),
         pages_downloaded = fst d,
         forms_downloaded = snd d\<rparr>,
      md_parse_status =
        \<lparr>parsed =
           (missing_error ''APPLICATION PROCESS'' app @ missing_error ''REQUIRED DOCUMENTS'' docs @
            missing_error ''INTERVIEW REQUIREMENTS'' iv @ missing_error ''FORMS'' fm @
            missing_error ''LANGUAGE ACCESS'' lang = []),
         parse_timestamp = ts,
         ps_warnings =
           snd (snd (parse_preamble pre)) @
           (if app_steps app = [] then [''No numbered steps found in APPLICATION PROCESS''] else []) @
           snd (parse_forms fm) @
           (if cx = [] then [''COMPLEXITY ASSESSMENT section missing''] else []),
         ps_errors =
           missing_error ''APPLICATION PROCESS'' app @ missing_error ''REQUIRED DOCUMENTS'' docs @
           missing_error ''INTERVIEW REQUIREMENTS'' iv @ missing_error ''FORMS'' fm @
           missing_error ''LANGUAGE ACCESS'' lang\<rparr>\<rparr>,
     snd (snd (parse_preamble pre)) @
     (if app_steps app = [] then [''No numbered steps found in APPLICATION PROCESS''] else []) @
     snd (parse_forms fm) @
     (if cx = [] then [''COMPLEXITY ASSESSMENT section missing''] else []),
     missing_error ''APPLICATION PROCESS'' app @ missing_error ''REQUIRED DOCUMENTS'' docs @
     missing_error ''INTERVIEW REQUIREMENTS'' iv @ missing_error ''FORMS'' fm @
     missing_error ''LANGUAGE ACCESS'' lang)"
  unfolding assms build_metadata_def Let_def case_prod_beta by simp

lemma section_get_removed:
  "section_get (secs(k := None)) x = (if x = k then [] else section_get secs x)"
  by (simp add: section_get_def)

lemma bm_preamble:
  "collected_date (fst (build_metadata st secs d ts)) =
     fst (parse_preamble (section_get secs ''_preamble''))"
  "source_url (fst (build_metadata st secs d ts)) =
     fst (snd (parse_preamble (section_get secs ''_preamble'')))"
  by (simp_all add: build_metadata_unfold)

lemma bm_application:
  "md_application (fst (build_metadata st secs d ts)) =
     \<lparr>online_available =
        to_bool (extract_field (section_get secs ''APPLICATION PROCESS'')
          ''Online Application Available''),
      online_url = extract_field (section_get secs ''APPLICATION PROCESS'') ''Online Application URL'',
      online_doc_submission =
        to_bool (extract_field (section_get secs ''APPLICATION PROCESS'')
          ''Online Document Submission Available''),
      online_doc_submission_notes =
        extract_field (section_get secs ''APPLICATION PROCESS'') ''Online Document Submission Notes'',
      app_steps_count =
        final_steps_count (section_get secs ''COMPLEXITY ASSESSMENT'')
          (app_steps (section_get secs ''APPLICATION PROCESS'')),
      steps = app_steps (section_get secs ''APPLICATION PROCESS'')\<rparr>"
  by (simp add: build_metadata_unfold)

lemma bm_documents:
  "md_documents (fst (build_metadata st secs d ts)) =
     \<lparr>specified_on_website = (0 < length (extract_list_items (section_get secs ''REQUIRED DOCUMENTS''))),
      document_list = extract_list_items (section_get secs ''REQUIRED DOCUMENTS'')\<rparr>"
  by (simp add: build_metadata_unfold)

lemma bm_interview:
  "md_interview (fst (build_metadata st secs d ts)) =
     parse_interview (section_get secs ''INTERVIEW REQUIREMENTS'')"
  by (simp add: build_metadata_unfold)

lemma bm_forms:
  "md_forms (fst (build_metadata st secs d ts)) = fst (parse_forms (section_get secs ''FORMS''))"
  by (simp add: build_metadata_unfold)

lemma bm_language:
  "md_language_access (fst (build_metadata st secs d ts)) =
     parse_language (section_get secs ''LANGUAGE ACCESS'')"
  by (simp add: build_metadata_unfold)

lemma bm_complexity:
  "md_complexity (fst (build_metadata st secs d ts)) =
     \<lparr>steps_count =
        final_steps_count (section_get secs ''COMPLEXITY ASSESSMENT'')
          (app_steps (section_get secs ''APPLICATION PROCESS'')),
      forms_to_complete =
        count_field (section_get secs ''COMPLEXITY ASSESSMENT'') ''Estimated Total Forms to Complete'',
      reading_level = extract_field (section_get secs ''COMPLEXITY ASSESSMENT'') ''Estimated Reading Level'',
      reading_level_notes =
        extract_field (section_get secs ''COMPLEXITY ASSESSMENT'') ''Reading Level Notes''\<rparr>"
  by (simp add: build_metadata_unfold)

lemma bm_assets:
  "md_assets (fst (build_metadata st secs d ts)) =
     \<lparr>pages_referenced =
        fst (if section_get secs ''URLS REFERENCED'' \<noteq> []
             then parse_urls_section (section_get secs ''URLS REFERENCED'') else (0, 0)),
      downloads_referenced =
        snd (if section_get secs ''URLS REFERENCED'' \<noteq> []
             then parse_urls_section (section_get secs ''URLS REFERENCED'') else (0, 0)),
      pages_downloaded = fst d,
      forms_downloaded = snd d\<rparr>"
  by (simp add: build_metadata_unfold)

lemma bm_errors:
  "snd (snd (build_metadata st secs d ts)) =
     missing_error ''APPLICATION PROCESS'' (section_get secs ''APPLICATION PROCESS'') @
     missing_error ''REQUIRED DOCUMENTS'' (section_get secs ''REQUIRED DOCUMENTS'') @
     missing_error ''INTERVIEW REQUIREMENTS'' (section_get secs ''INTERVIEW REQUIREMENTS'') @
     missing_error ''FORMS'' (section_get secs ''FORMS'') @
     missing_error ''LANGUAGE ACCESS'' (section_get secs ''LANGUAGE ACCESS'')"
  by (simp add: build_metadata_unfold)

lemma block_removed_errors:
  assumes "k \<in> set required_blocks"
    and "\<forall>r\<in>set required_blocks. section_get secs r \<noteq> []"
  shows "snd (snd (build_metadata st secs d ts)) = []"
    and "snd (snd (build_metadata st (secs(k := None)) d ts')) = [k @ '' section missing'']"
  using assms
  by (auto simp: bm_errors required_blocks_def section_get_removed missing_error_def)

lemma block_removed_unaffected:
  assumes "k \<in> set required_blocks"
  shows "collected_date (fst (build_metadata st (secs(k := None)) d ts')) =
           collected_date (fst (build_metadata st secs d ts))"
    and "source_url (fst (build_metadata st (secs(k := None)) d ts')) =
           source_url (fst (build_metadata st secs d ts))"
    and "md_assets (fst (build_metadata st (secs(k := None)) d ts')) =
           md_assets (fst (build_metadata st secs d ts))"
  using assms
  by (auto simp: bm_preamble bm_assets required_blocks_def section_get_removed)

lemma block_removed_application:
  assumes "k \<in> set required_blocks"
  shows "md_application (fst (build_metadata st (secs(k := None)) d ts')) =
       (if k = ''APPLICATION PROCESS''
        then \<lparr>online_available = None, online_url = None, online_doc_submission = None,
              online_doc_submission_notes = None,
              app_steps_count =
                count_field (section_get secs ''COMPLEXITY ASSESSMENT'')
                  ''Estimated Number of Steps'',
              steps = []\<rparr>
        else md_application (fst (build_metadata st secs d ts)))"
  using assms
  by (auto simp: bm_application required_blocks_def section_get_removed app_steps_Nil
      extract_field_Nil to_bool_None final_steps_count_def)

lemma block_removed_complexity:
  assumes "k \<in> set required_blocks"
  shows "md_complexity (fst (build_metadata st (secs(k := None)) d ts')) =
       (if k = ''APPLICATION PROCESS''
        then (md_complexity (fst (build_metadata st secs d ts)))\<lparr>steps_count :=
               count_field (section_get secs ''COMPLEXITY ASSESSMENT'')
                 ''Estimated Number of Steps''\<rparr>
        else md_complexity (fst (build_metadata st secs d ts)))"
  using assms
  by (auto simp: bm_complexity required_blocks_def section_get_removed app_steps_Nil
      final_steps_count_def)

lemma block_removed_documents:
  "md_documents (fst (build_metadata st (secs(k := None)) d ts')) =
       (if k = ''REQUIRED DOCUMENTS''
        then \<lparr>specified_on_website = False, document_list = []\<rparr>
        else md_documents (fst (build_metadata st secs d ts)))"
  by (simp add: bm_documents section_get_removed extractors_Nil)

lemma block_removed_interview:
  "md_interview (fst (build_metadata st (secs(k := None)) d ts')) =
       (if k = ''INTERVIEW REQUIREMENTS''
        then parse_interview []
        else md_interview (fst (build_metadata st secs d ts)))"
  by (simp add: bm_interview section_get_removed)

lemma block_removed_forms:
  "md_forms (fst (build_metadata st (secs(k := None)) d ts')) =
       (if k = ''FORMS'' then \<lparr>total_count = None, form_list = []\<rparr>
        else md_forms (fst (build_metadata st secs d ts)))"
  by (simp add: bm_forms section_get_removed parse_forms_Nil)

lemma block_removed_language:
  "md_language_access (fst (build_metadata st (secs(k := None)) d ts')) =
       (if k = ''LANGUAGE ACCESS'' then parse_language []
        else md_language_access (fst (build_metadata st secs d ts)))"
  by (simp add: bm_language section_get_removed)

lemma parse_state_record:
  assumes "md_files w (folder_name st) = Some content"
    and "\<not> contains PLACEHOLDER_MARKER content"
  shows "fst (fst (parse_state w st)) =
           Some (fst (build_metadata st (split_sections content)
                        (stored_assets w (folder_name st)) (clock w (ticks w))))"
proof -
  obtain m ws es where b:
    "build_metadata st (split_sections content) (stored_assets w (folder_name st))
       (clock w (ticks w)) = (m, ws, es)"
    by (metis prod_cases3)
  show ?thesis using parse_state_parsed [OF assms b] b by simp
qed

text \<open>
  Claim C2, as the code has it. Let a document have the five required blocks, none of
  them empty, and let one of them, which occurs once, be removed with its header line.
  Then \<^verbatim>\<open>parse_state\<close> reports no error for the document and exactly one error for the
  document without the block, which names the block; a record is still produced, with
  \<^verbatim>\<open>parse_status.parsed\<close> false and the same errors in \<^verbatim>\<open>parse_status.errors\<close>; the
  sub-record of the removed block has its fields absent, false or empty (but
  \<^verbatim>\<open>application.steps_count\<close> keeps the number declared in COMPLEXITY ASSESSMENT); the
  fields of the preamble, the assets and the sub-records of the other required blocks are
  the same as for the whole document; and the complexity sub-record is the same except
  that, when the removed block is APPLICATION PROCESS, its \<^verbatim>\<open>steps_count\<close> is the declared
  number alone and no longer falls back on the number of steps found.
\<close>

theorem missing_required_block:
  assumes k: "k \<in> set required_blocks"
    and rem: "removes_block k content content'"
    and wf: "\<forall>r\<in>set required_blocks. section_get (split_sections content) r \<noteq> []"
    and f: "md_files w (folder_name st) = Some content"
    and f': "md_files w' (folder_name st) = Some content'"
    and np: "\<not> contains PLACEHOLDER_MARKER content"
    and np': "\<not> contains PLACEHOLDER_MARKER content'"
    and stored: "stored_assets w' (folder_name st) = stored_assets w (folder_name st)"
  shows "\<exists>m ws es u m' ws' es' u'.
     parse_state w st = ((Some m, ws, es), u) \<and>
     parse_state w' st = ((Some m', ws', es'), u') \<and>
     es = [] \<and> parsed (md_parse_status m) \<and>
     es' = [k @ '' section missing''] \<and> ps_errors (md_parse_status m') = es' \<and>
     \<not> parsed (md_parse_status m') \<and>
     collected_date m' = collected_date m \<and> source_url m' = source_url m \<and>
     md_assets m' = md_assets m \<and>
     md_application m' =
       (if k = ''APPLICATION PROCESS''
        then \<lparr>online_available = None, online_url = None, online_doc_submission = None,
              online_doc_submission_notes = None,
              app_steps_count =
                count_field (section_get (split_sections content) ''COMPLEXITY ASSESSMENT'')
                  ''Estimated Number of Steps'',
              steps = []\<rparr>
        else md_application m) \<and>
     md_documents m' =
       (if k = ''REQUIRED DOCUMENTS''
        then \<lparr>specified_on_website = False, document_list = []\<rparr>
        else md_documents m) \<and>
     md_interview m' =
       (if k = ''INTERVIEW REQUIREMENTS''
        then \<lparr>required = None, type_options = None, scheduling_who_initiates = None,
              scheduling_url = None, hours_specified = False, hours_description = None,
              evening_weekend_hours = None, hours_notes = None, reminders_sent = None,
              reminder_method = None, reschedule_available = None, reschedule_method = None,
              reschedule_url = None, missed_interview_penalty = None,
              good_cause_exceptions = None, good_cause_notes = None\<rparr>
        else md_interview m) \<and>
     md_forms m' =
       (if k = ''FORMS'' then \<lparr>total_count = None, form_list = []\<rparr> else md_forms m) \<and>
     md_language_access m' =
       (if k = ''LANGUAGE ACCESS''
        then \<lparr>website_languages = None, form_languages = None, translation_method = None,
              la_notes = None\<rparr>
        else md_language_access m) \<and>
     md_complexity m' =
       (if k = ''APPLICATION PROCESS''
        then (md_complexity m)\<lparr>steps_count :=
               count_field (section_get (split_sections content) ''COMPLEXITY ASSESSMENT'')
                 ''Estimated Number of Steps''\<rparr>
        else md_complexity m)"
proof -
  let ?secs = "split_sections content"
  let ?d = "stored_assets w (folder_name st)"
  have "k \<noteq> ''_preamble''" using k by (auto simp: required_blocks_def)
  then have secs': "split_sections content' = ?secs(k := None)"
    using removes_block_sections [OF rem] by simp
  define r where "r = build_metadata st ?secs ?d (clock w (ticks w))"
  define r' where "r' = build_metadata st (?secs(k := None)) ?d (clock w' (ticks w'))"
  obtain m ws es where b: "r = (m, ws, es)" by (metis prod_cases3)
  obtain m' ws' es' where b': "r' = (m', ws', es')" by (metis prod_cases3)
  have p: "parse_state w st =
      ((Some m, ws, es),
       w\<lparr>ticks := Suc (ticks w), meta_files := (meta_files w)(folder_name st \<mapsto> m)\<rparr>)"
    using parse_state_parsed [OF f np] b unfolding r_def by simp
  have p': "parse_state w' st =
      ((Some m', ws', es'),
       w'\<lparr>ticks := Suc (ticks w'), meta_files := (meta_files w')(folder_name st \<mapsto> m')\<rparr>)"
    using parse_state_parsed [OF f' np'] b' unfolding r'_def secs' stored by simp
  have m: "m = fst r" "es = snd (snd r)" "m' = fst r'" "es' = snd (snd r')"
    using b b' by simp_all
  have e: "es = []" "es' = [k @ '' section missing'']"
    unfolding m r_def r'_def using block_removed_errors [OF k wf] by simp_all
  have d: "ps_errors (md_parse_status m) = es" "parsed (md_parse_status m) = (es = [])"
    "ps_errors (md_parse_status m') = es'" "parsed (md_parse_status m') = (es' = [])"
    using build_metadata_diagnostics [OF b [unfolded r_def]]
      build_metadata_diagnostics [OF b' [unfolded r'_def]] by simp_all
  have u: "collected_date m' = collected_date m" "source_url m' = source_url m"
    "md_assets m' = md_assets m"
    unfolding m r_def r'_def using block_removed_unaffected [OF k] by simp_all
  have g1: "md_application m' =
       (if k = ''APPLICATION PROCESS''
        then \<lparr>online_available = None, online_url = None, online_doc_submission = None,
              online_doc_submission_notes = None,
              app_steps_count =
                count_field (section_get ?secs ''COMPLEXITY ASSESSMENT'')
                  ''Estimated Number of Steps'',
              steps = []\<rparr>
        else md_application m)"
    unfolding m r_def r'_def by (rule block_removed_application [OF k])
  have g2: "md_documents m' =
       (if k = ''REQUIRED DOCUMENTS''
        then \<lparr>specified_on_website = False, document_list = []\<rparr>
        else md_documents m)"
    unfolding m r_def r'_def by (rule block_removed_documents)
  have g3: "md_interview m' =
       (if k = ''INTERVIEW REQUIREMENTS''
        then \<lparr>required = None, type_options = None, scheduling_who_initiates = None,
              scheduling_url = None, hours_specified = False, hours_description = None,
              evening_weekend_hours = None, hours_notes = None, reminders_sent = None,
              reminder_method = None, reschedule_available = None, reschedule_method = None,
              reschedule_url = None, missed_interview_penalty = None,
              good_cause_exceptions = None, good_cause_notes = None\<rparr>
        else md_interview m)"
    unfolding m r_def r'_def
    using block_removed_interview [where ts = "clock w (ticks w)"]
    by (simp add: parse_interview_Nil)
  have g4: "md_forms m' =
       (if k = ''FORMS'' then \<lparr>total_count = None, form_list = []\<rparr> else md_forms m)"
    unfolding m r_def r'_def by (rule block_removed_forms)
  have g5: "md_language_access m' =
       (if k = ''LANGUAGE ACCESS''
        then \<lparr>website_languages = None, form_languages = None, translation_method = None,
              la_notes = None\<rparr>
        else md_language_access m)"
    unfolding m r_def r'_def
    using block_removed_language [where ts = "clock w (ticks w)"]
    by (simp add: parse_language_Nil)
  have g6: "md_complexity m' =
       (if k = ''APPLICATION PROCESS''
        then (md_complexity m)\<lparr>steps_count :=
               count_field (section_get ?secs ''COMPLEXITY ASSESSMENT'')
                 ''Estimated Number of Steps''\<rparr>
        else md_complexity m)"
    unfolding m r_def r'_def by (rule block_removed_complexity [OF k])
  have "es = [] \<and> parsed (md_parse_status m) \<and> es' = [k @ '' section missing''] \<and>
        ps_errors (md_parse_status m') = es' \<and> \<not> parsed (md_parse_status m')"
    using e d by simp
  with p p' u g1 g2 g3 g4 g5 g6 show ?thesis by blast
qed

lemma example_lines:
  "splitlines example_report =
     example_application @ example_documents @ example_interview @ example_forms @ example_tail"
  "splitlines example_without_forms =
     example_application @ example_documents @ example_interview @ example_tail"
  "splitlines example_without_application =
     example_documents @ example_interview @ example_forms @ example_tail"
  by code_simp+

lemma example_present:
  "list_all (\<lambda>r. section_get (split_sections example_report) r \<noteq> []) required_blocks"
  by code_simp

lemma example_no_marker:
  "\<not> contains PLACEHOLDER_MARKER example_report"
  "\<not> contains PLACEHOLDER_MARKER example_without_forms"
  "\<not> contains PLACEHOLDER_MARKER example_without_application"
  by code_simp+


lemma example_removes_forms: "removes_block ''FORMS'' example_report example_without_forms"
proof -
  let ?pre = "example_application @ example_documents @ example_interview"
  let ?h = "''## FORMS''"
  let ?body = "[''| SNAP-1 | 12 | Application | English | https://x.org/a | PDF |'']"
  have "splitlines example_report = ?pre @ ?h # ?body @ example_tail"
    by (simp add: example_lines example_forms_def)
  moreover have "splitlines example_without_forms = ?pre @ example_tail"
    by (simp add: example_lines)
  moreover have "header_match ?h = Some ''FORMS''" "upper (strip ''FORMS'') = ''FORMS''"
    by code_simp+
  moreover have "list_all (\<lambda>l. header_match l = None) ?body" by code_simp
  then have "\<forall>l\<in>set ?body. header_match l = None" by (simp add: list_all_iff)
  moreover have "header_match (hd example_tail) \<noteq> None" by code_simp
  moreover have "list_all (\<lambda>l. case header_match l of None \<Rightarrow> True
                                | Some g' \<Rightarrow> upper (strip g') \<noteq> ''FORMS'') (?pre @ example_tail)"
    by code_simp
  then have "\<forall>l\<in>set (?pre @ example_tail). \<forall>g'. header_match l = Some g' \<longrightarrow>
                upper (strip g') \<noteq> ''FORMS''"
    unfolding list_all_iff by (auto split: option.splits)
  ultimately show ?thesis unfolding removes_block_def by blast
qed

lemma example_removes_application:
  "removes_block ''APPLICATION PROCESS'' example_report example_without_application"
proof -
  let ?h = "''## APPLICATION PROCESS''"
  let ?body = "[''1. Create an account'', ''2. Submit form'']"
  let ?post = "example_documents @ example_interview @ example_forms @ example_tail"
  have "splitlines example_report = [] @ ?h # ?body @ ?post"
    by (simp add: example_lines example_application_def)
  moreover have "splitlines example_without_application = [] @ ?post"
    by (simp add: example_lines)
  moreover have "header_match ?h = Some ''APPLICATION PROCESS''"
    "upper (strip ''APPLICATION PROCESS'') = ''APPLICATION PROCESS''"
    by code_simp+
  moreover have "list_all (\<lambda>l. header_match l = None) ?body" by code_simp
  then have "\<forall>l\<in>set ?body. header_match l = None" by (simp add: list_all_iff)
  moreover have "header_match (hd ?post) \<noteq> None" by code_simp
  moreover have "list_all (\<lambda>l. case header_match l of None \<Rightarrow> True
                     | Some g' \<Rightarrow> upper (strip g') \<noteq> ''APPLICATION PROCESS'') ([] @ ?post)"
    by code_simp
  then have "\<forall>l\<in>set ([] @ ?post). \<forall>g'. header_match l = Some g' \<longrightarrow>
                upper (strip g') \<noteq> ''APPLICATION PROCESS''"
    unfolding list_all_iff by (auto split: option.splits)
  ultimately show ?thesis unfolding removes_block_def by blast
qed

theorem missing_required_block_witness:
  "snd (snd (fst (parse_state (example_world example_without_forms) example_state))) =
     [''FORMS section missing''] \<and>
   map_option md_forms (fst (fst (parse_state (example_world example_without_forms) example_state))) =
     Some \<lparr>total_count = None, form_list = []\<rparr> \<and>
   map_option md_interview
     (fst (fst (parse_state (example_world example_without_forms) example_state))) =
   map_option md_interview
     (fst (fst (parse_state (example_world example_report) example_state)))"
proof -
  have k: "''FORMS'' \<in> set required_blocks" by (simp add: required_blocks_def)
  have wf: "\<forall>r\<in>set required_blocks. section_get (split_sections example_report) r \<noteq> []"
    using example_present by (simp add: list_all_iff)
  have f: "md_files (example_world example_report) (folder_name example_state) = Some example_report"
    "md_files (example_world example_without_forms) (folder_name example_state) =
       Some example_without_forms"
    by (simp_all add: example_world_def example_state_def)
  have s: "stored_assets (example_world example_without_forms) (folder_name example_state) =
           stored_assets (example_world example_report) (folder_name example_state)"
    by (simp add: example_world_def)
  from missing_required_block
    [OF k example_removes_forms wf f example_no_marker(1) example_no_marker(2) s]
  show ?thesis by auto
qed

text \<open>
  The claim as written says that the extraction of every other block is unaffected. The
  example report declares no number of steps in COMPLEXITY ASSESSMENT; with its
  APPLICATION PROCESS block the complexity sub-record counts the 2 steps found, without it
  the count is absent.
\<close>

theorem missing_application_counterexample:
  "removes_block ''APPLICATION PROCESS'' example_report example_without_application \<and>
   list_all (\<lambda>r. section_get (split_sections example_report) r \<noteq> []) required_blocks \<and>
   map_option steps_count
     (map_option md_complexity
        (fst (fst (parse_state (example_world example_report) example_state)))) =
     Some (Some 2) \<and>
   map_option steps_count
     (map_option md_complexity
        (fst (fst (parse_state (example_world example_without_application) example_state)))) =
     Some None"
proof -
  have f: "md_files (example_world example_report) (folder_name example_state) = Some example_report"
    "md_files (example_world example_without_application) (folder_name example_state) =
       Some example_without_application"
    by (simp_all add: example_world_def example_state_def)
  have "final_steps_count
          (section_get (split_sections example_report) ''COMPLEXITY ASSESSMENT'')
          (app_steps (section_get (split_sections example_report) ''APPLICATION PROCESS'')) =
        Some 2"
    by code_simp
  then have "map_option steps_count
     (map_option md_complexity
        (fst (fst (parse_state (example_world example_report) example_state)))) =
     Some (Some 2)"
    unfolding parse_state_record [OF f(1) example_no_marker(1)] by (simp add: bm_complexity)
  moreover have "final_steps_count
          (section_get (split_sections example_without_application) ''COMPLEXITY ASSESSMENT'')
          (app_steps (section_get (split_sections example_without_application)
             ''APPLICATION PROCESS'')) = None"
    by code_simp
  then have "map_option steps_count
     (map_option md_complexity
        (fst (fst (parse_state (example_world example_without_application) example_state)))) =
     Some None"
    unfolding parse_state_record [OF f(2) example_no_marker(3)] by (simp add: bm_complexity)
  ultimately show ?thesis using example_removes_application example_present by simp
qed

end
